theory Spec2Isabelle
  imports Complex_Main "HOL-Library.Word" "HOL-Library.Sublist"
begin

unbundle bit_operations_syntax

section \<open>The transport: packing into byte buffers\<close>

text \<open>
  \<^verbatim>\<open>remoteindices.hh\<close> talks to MPI through \<^verbatim>\<open>MPI_Pack\<close>, \<^verbatim>\<open>MPI_Unpack\<close>,
  \<^verbatim>\<open>MPI_Pack_size\<close>, \<^verbatim>\<open>MPI_Ssend\<close>, \<^verbatim>\<open>MPI_Recv\<close> and \<^verbatim>\<open>MPI_Allreduce\<close>. The library is not
  part of the repository; it is modelled here as far as the code observes it. A buffer
  is a list of bytes whose length is the \<^verbatim>\<open>bufferSize\<close> it was allocated with, a position
  cursor is a byte offset. An \<^verbatim>\<open>int\<close> takes four bytes (least significant first), a
  \<^verbatim>\<open>char\<close> one. Packing or unpacking beyond the end of the buffer is the fatal MPI
  error, the value \<open>None\<close>.
\<close>

type_synonym byte = "8 word"
type_synonym buffer = "byte list"

definition intSize :: nat where
  "intSize = 4"

definition encode_int :: "32 word \<Rightarrow> byte list" where
  "encode_int w = [ucast w, ucast (drop_bit 8 w), ucast (drop_bit 16 w), ucast (drop_bit 24 w)]"

definition decode_int :: "byte list \<Rightarrow> 32 word" where
  "decode_int bs = (case bs of
      [b0, b1, b2, b3] \<Rightarrow>
        ucast b0 OR push_bit 8 (ucast b1) OR push_bit 16 (ucast b2) OR push_bit 24 (ucast b3)
    | _ \<Rightarrow> 0)"

definition MPI_Pack :: "byte list \<Rightarrow> buffer \<Rightarrow> nat \<Rightarrow> (buffer \<times> nat) option" where
  "MPI_Pack bytes outbuf position =
     (if position + length bytes \<le> length outbuf
      then Some (take position outbuf @ bytes @ drop (position + length bytes) outbuf,
                 position + length bytes)
      else None)"

definition MPI_Unpack :: "buffer \<Rightarrow> nat \<Rightarrow> nat \<Rightarrow> (byte list \<times> nat) option" where
  "MPI_Unpack inbuf position n =
     (if position + n \<le> length inbuf
      then Some (take n (drop position inbuf), position + n)
      else None)"

definition MPI_Pack_int :: "32 word \<Rightarrow> buffer \<Rightarrow> nat \<Rightarrow> (buffer \<times> nat) option" where
  "MPI_Pack_int v outbuf position = MPI_Pack (encode_int v) outbuf position"

definition MPI_Unpack_int :: "buffer \<Rightarrow> nat \<Rightarrow> (32 word \<times> nat) option" where
  "MPI_Unpack_int inbuf position =
     (case MPI_Unpack inbuf position intSize of
        None \<Rightarrow> None
      | Some (bs, position') \<Rightarrow> Some (decode_int bs, position'))"

text \<open>
  \<^verbatim>\<open>MPI_Recv(p_in, bufferSize, ...)\<close>: the message overwrites the front of the receive
  buffer and the bytes behind it stay as they were; a message longer than the buffer is
  the fatal truncation error.
\<close>

definition MPI_Recv :: "byte list \<Rightarrow> buffer \<Rightarrow> buffer option" where
  "MPI_Recv msg p_in =
     (if length msg \<le> length p_in then Some (msg @ drop (length msg) p_in) else None)"

text \<open>\<^verbatim>\<open>MPI_Allreduce(..., MPI_MAX, ...)\<close> over the contributions of all ranks.\<close>

definition MPI_Allreduce_MAX :: "nat list \<Rightarrow> nat" where
  "MPI_Allreduce_MAX xs = fold max xs 0"


section \<open>The data model\<close>

text \<open>
  A data member \<^verbatim>\<open>name_\<close> of the source is the record field \<open>name_m\<close> here.

  \<^verbatim>\<open>ParallelLocalIndex<T>\<close>: a \<^verbatim>\<open>uint32_t\<close> and three \<^verbatim>\<open>char\<close>s.
\<close>

record ParallelLocalIndex =
  localIndex_m :: "32 word"
  attribute_m :: byte
  public_m :: byte
  state_m :: byte

text \<open>
  Modelled from the spec: the enumeration \<^verbatim>\<open>LocalIndexState\<close> is declared in
  \<^verbatim>\<open>indexset.hh\<close>, which is not among the sources; the spec lists its values as
  \<^verbatim>\<open>{VALID, DELETED}\<close>, so \<^verbatim>\<open>VALID\<close> is the first enumerator.
\<close>

definition VALID :: byte where
  "VALID = 0"

text \<open>The three constructors of \<^verbatim>\<open>ParallelLocalIndex\<close>; a \<^verbatim>\<open>bool\<close> is cast to \<^verbatim>\<open>char\<close>.\<close>

definition ParallelLocalIndex_attr :: "byte \<Rightarrow> bool \<Rightarrow> ParallelLocalIndex" where
  "ParallelLocalIndex_attr attr isPub =
     \<lparr>localIndex_m = 0, attribute_m = attr, public_m = (if isPub then 1 else 0),
      state_m = VALID\<rparr>"

definition ParallelLocalIndex_local :: "32 word \<Rightarrow> byte \<Rightarrow> bool \<Rightarrow> ParallelLocalIndex" where
  "ParallelLocalIndex_local localIdx attr isPub =
     \<lparr>localIndex_m = localIdx, attribute_m = attr, public_m = (if isPub then 1 else 0),
      state_m = VALID\<rparr>"

definition ParallelLocalIndex_default :: ParallelLocalIndex where
  "ParallelLocalIndex_default =
     \<lparr>localIndex_m = 0, attribute_m = 0, public_m = 0, state_m = VALID\<rparr>"

definition isPublic :: "ParallelLocalIndex \<Rightarrow> bool" where
  "isPublic l = (public_m l \<noteq> 0)"

text \<open>
  \<^verbatim>\<open>IndexPair<TG, ParallelLocalIndex<TA>>\<close> is declared in \<^verbatim>\<open>indexset.hh\<close>; the code
  here names its two members \<^verbatim>\<open>global_\<close> and \<^verbatim>\<open>local_\<close>. The index sets handled by
  \<^verbatim>\<open>RemoteIndices\<close> are \<^verbatim>\<open>IndexSet<int, ...>\<close>, so the global index is an \<^verbatim>\<open>int\<close>, compared
  as a signed number.
\<close>

record IndexPair =
  global_m :: "32 word"
  local_m :: ParallelLocalIndex

text \<open>
  Modelled from the spec: the default constructor of \<^verbatim>\<open>IndexPair\<close> is in
  \<^verbatim>\<open>indexset.hh\<close>, which is not among the sources. The spec gives the default local part
  as \<^verbatim>\<open>(localIndex=0, attribute=A(), isPublic=false, state=VALID)\<close>; the global index,
  which is overwritten by the first \<^verbatim>\<open>MPI_Unpack\<close> before it is read, is taken to be 0.
\<close>

definition IndexPair_default :: IndexPair where
  "IndexPair_default = \<lparr>global_m = 0, local_m = ParallelLocalIndex_default\<rparr>"

text \<open>
  Modelled from the spec: \<^verbatim>\<open>IndexSet\<close> is declared in \<^verbatim>\<open>indexset.hh\<close>, which is not
  among the sources. It is an ordered sequence of pairs that can be iterated, with the
  queries \<^verbatim>\<open>size()\<close>, \<^verbatim>\<open>noPublic()\<close> (the number of public pairs) and \<^verbatim>\<open>seqNo()\<close>.
\<close>

record IndexSet =
  pairs :: "IndexPair list"
  seqNo :: int

definition IndexSet_size :: "IndexSet \<Rightarrow> nat" where
  "IndexSet_size s = length (pairs s)"

definition noPublic :: "IndexSet \<Rightarrow> nat" where
  "noPublic s = length (filter (\<lambda>p. isPublic (local_m p)) (pairs s))"

text \<open>
  A \<^verbatim>\<open>PairType*\<close> points into an index set: the address of the set and the place of the
  pair in it.
\<close>

datatype PairPtr = PairPtr (setAddr: nat) (pairIdx: nat)

definition deref :: "(nat \<Rightarrow> IndexSet) \<Rightarrow> PairPtr \<Rightarrow> IndexPair" where
  "deref sets p = pairs (sets (setAddr p)) ! pairIdx p"

text \<open>\<^verbatim>\<open>RemoteIndex(attribute, local)\<close>: the attribute on the other process and the local pair.\<close>

datatype RemoteIndex = RemoteIndex (remoteAttribute: byte) (localIndexPair: PairPtr)

text \<open>
  \<^verbatim>\<open>RemoteIndices\<close>: the two index sets are held by reference (their addresses); the
  lists of \<^verbatim>\<open>remoteIndices_\<close> are held by pointer.
\<close>

record RemoteIndices =
  source_m :: nat
  dest_m :: nat
  sourceSeqNo_m :: int
  destSeqNo_m :: int
  remoteIndices_m :: "nat \<rightharpoonup> nat \<times> nat"
  copyLocal_m :: "(32 word \<times> 32 word) list"

definition RemoteIndices_new :: "nat \<Rightarrow> nat \<Rightarrow> RemoteIndices" where
  "RemoteIndices_new src destination =
     \<lparr>source_m = src, dest_m = destination, sourceSeqNo_m = - 1, destSeqNo_m = - 1,
      remoteIndices_m = Map.empty, copyLocal_m = []\<rparr>"

text \<open>
  The memory of one process: its index sets by address, the heap of
  \<^verbatim>\<open>RemoteIndexList\<close> objects and the \<^verbatim>\<open>RemoteIndices\<close> object itself. The address of
  a list is its place in the heap; a deleted list leaves \<open>None\<close> behind, and a new list
  gets an address that was never used.

  \<^verbatim>\<open>buildRemote\<close> hands the address of its local \<^verbatim>\<open>bool sendTwo\<close>, an object of one byte, to
  \<^verbatim>\<open>MPI_Pack\<close> as one \<^verbatim>\<open>MPI_INT\<close>: four bytes are read, the \<^verbatim>\<open>bool\<close> and the three bytes
  that lie behind it in the stack frame. The program does not determine those three
  bytes; they are the field \<open>behind_sendTwo\<close> of the memory of the process.
\<close>

record process =
  indexSets :: "nat \<Rightarrow> IndexSet"
  listHeap :: "RemoteIndex list option list"
  this :: RemoteIndices
  behind_sendTwo :: "byte \<times> byte \<times> byte"

definition heap_at :: "'a option list \<Rightarrow> nat \<Rightarrow> 'a option" where
  "heap_at h a = (if a < length h then h ! a else None)"


section \<open>The committed record datatype\<close>

text \<open>
  \<^verbatim>\<open>MPITraits<ParallelLocalIndex<T>>::getType\<close> commits the struct
  \<^verbatim>\<open>{MPI_LB, char at attribute_, MPI_UB}\<close>, and \<^verbatim>\<open>MPITraits<IndexPair<...>>::getType\<close> the
  struct \<^verbatim>\<open>{MPI_LB, TG at global_, that type at local_, MPI_UB}\<close>. The bound markers carry
  no data. Packing with such a type writes the listed members in order; unpacking stores
  them into the listed members of the object it is given and touches no other member.
\<close>

definition ParallelLocalIndex_pack :: "ParallelLocalIndex \<Rightarrow> byte list" where
  "ParallelLocalIndex_pack l = [attribute_m l]"

definition ParallelLocalIndex_unpack :: "byte list \<Rightarrow> ParallelLocalIndex \<Rightarrow> ParallelLocalIndex" where
  "ParallelLocalIndex_unpack bs l = (case bs of [b] \<Rightarrow> l\<lparr>attribute_m := b\<rparr> | _ \<Rightarrow> l)"

definition IndexPair_pack :: "IndexPair \<Rightarrow> byte list" where
  "IndexPair_pack p = encode_int (global_m p) @ ParallelLocalIndex_pack (local_m p)"

definition IndexPair_unpack :: "byte list \<Rightarrow> IndexPair \<Rightarrow> IndexPair" where
  "IndexPair_unpack bs p =
     p\<lparr>global_m := decode_int (take intSize bs),
       local_m := ParallelLocalIndex_unpack (drop intSize bs) (local_m p)\<rparr>"

definition recordSize :: nat where
  "recordSize = intSize + 1"

definition MPI_Pack_pair :: "IndexPair \<Rightarrow> buffer \<Rightarrow> nat \<Rightarrow> (buffer \<times> nat) option" where
  "MPI_Pack_pair p outbuf position = MPI_Pack (IndexPair_pack p) outbuf position"

definition MPI_Unpack_pair :: "buffer \<Rightarrow> nat \<Rightarrow> IndexPair \<Rightarrow> (IndexPair \<times> nat) option" where
  "MPI_Unpack_pair inbuf position target =
     (case MPI_Unpack inbuf position recordSize of
        None \<Rightarrow> None
      | Some (bs, position') \<Rightarrow> Some (IndexPair_unpack bs target, position'))"

text \<open>\<^verbatim>\<open>MPI_Pack_size(n, type, ...)\<close> for \<open>n\<close> records.\<close>

definition MPI_Pack_size_pairs :: "nat \<Rightarrow> nat" where
  "MPI_Pack_size_pairs n = n * recordSize"


section \<open>packEntries, buildLocal, unpackIndices\<close>

text \<open>
  \<^verbatim>\<open>packEntries<ignorePublic>\<close>: every published pair of the index set at address \<open>a\<close> is
  packed and a pointer to it is stored in the next slot of the pointer array. The array
  is represented by the slots written so far (\<^verbatim>\<open>pairs[i++] = ...\<close> appends).
\<close>

fun packEntries_for ::
  "bool \<Rightarrow> nat \<Rightarrow> IndexPair list \<Rightarrow> nat \<Rightarrow> PairPtr list \<Rightarrow> buffer \<Rightarrow> nat
     \<Rightarrow> (PairPtr list \<times> buffer \<times> nat) option" where
  "packEntries_for ignorePublic a [] k prs p_out position = Some (prs, p_out, position)"
| "packEntries_for ignorePublic a (index # rest) k prs p_out position =
     (if ignorePublic \<or> isPublic (local_m index) then
        (case MPI_Pack_pair index p_out position of
           None \<Rightarrow> None
         | Some (p_out', position') \<Rightarrow>
             packEntries_for ignorePublic a rest (Suc k) (prs @ [PairPtr a k]) p_out' position')
      else packEntries_for ignorePublic a rest (Suc k) prs p_out position)"

definition packEntries ::
  "bool \<Rightarrow> (nat \<Rightarrow> IndexSet) \<Rightarrow> nat \<Rightarrow> buffer \<Rightarrow> nat \<Rightarrow> (PairPtr list \<times> buffer \<times> nat) option" where
  "packEntries ignorePublic sets a p_out position =
     packEntries_for ignorePublic a (pairs (sets a)) 0 [] p_out position"

text \<open>
  \<^verbatim>\<open>buildLocal<ignorePublic>\<close>: the two iterators are the remaining suffixes of the two
  sets. The pair pushed is \<^verbatim>\<open>(sourceIndex->local(), destIndex->local())\<close>, converted to
  \<^verbatim>\<open>pair<int,int>\<close> through \<^verbatim>\<open>operator uint32_t\<close>.
\<close>

fun buildLocal_while ::
  "bool \<Rightarrow> IndexPair list \<Rightarrow> IndexPair list \<Rightarrow> (32 word \<times> 32 word) list
     \<Rightarrow> (32 word \<times> 32 word) list" where
  "buildLocal_while ignorePublic (sourceIndex # srest) (destIndex # drest) copied =
     (if global_m destIndex = global_m sourceIndex \<and>
         (ignorePublic \<or> isPublic (local_m destIndex) \<and> isPublic (local_m sourceIndex))
      then buildLocal_while ignorePublic srest drest
             (copied @ [(localIndex_m (local_m sourceIndex), localIndex_m (local_m destIndex))])
      else if global_m destIndex <s global_m sourceIndex
      then buildLocal_while ignorePublic (sourceIndex # srest) drest copied
      else buildLocal_while ignorePublic srest (destIndex # drest) copied)"
| "buildLocal_while ignorePublic [] ds copied = copied"
| "buildLocal_while ignorePublic ss [] copied = copied"

definition buildLocal :: "bool \<Rightarrow> process \<Rightarrow> process" where
  "buildLocal ignorePublic p =
     p\<lparr>this := (this p)\<lparr>copyLocal_m :=
         buildLocal_while ignorePublic
           (pairs (indexSets p (source_m (this p))))
           (pairs (indexSets p (dest_m (this p)))) []\<rparr>\<rparr>"

text \<open>
  \<^verbatim>\<open>unpackIndices\<close>: the \<^verbatim>\<open>while\<close> loop, with the list built so far, \<^verbatim>\<open>n_in\<close>,
  \<^verbatim>\<open>localIndex\<close>, the record \<^verbatim>\<open>index\<close> last unpacked and the position cursor as its state.
  The parameter \<^verbatim>\<open>local\<close> is \<open>locals\<close> here. \<^verbatim>\<open>MPI_Unpack\<close> stores into the object
  \<^verbatim>\<open>index\<close>, which keeps the members the datatype does not list. Reading a slot of
  \<^verbatim>\<open>local\<close> that was never written is undefined in the source and is \<open>None\<close> here.
\<close>

function unpackIndices_while ::
  "(nat \<Rightarrow> IndexSet) \<Rightarrow> int \<Rightarrow> PairPtr list \<Rightarrow> nat \<Rightarrow> buffer
     \<Rightarrow> RemoteIndex list \<Rightarrow> nat \<Rightarrow> nat \<Rightarrow> IndexPair \<Rightarrow> nat
     \<Rightarrow> (RemoteIndex list \<times> nat) option" where
  "unpackIndices_while sets remoteEntries locals localEntries p_in remote n_in localIndex index position =
     (if localIndex < localEntries then
        (if length locals \<le> localIndex then None
         else if global_m (deref sets (locals ! localIndex)) = global_m index then
           (if int (Suc n_in) < remoteEntries then
              (case MPI_Unpack_pair p_in position index of
                 None \<Rightarrow> None
               | Some (index', position') \<Rightarrow>
                   unpackIndices_while sets remoteEntries locals localEntries p_in
                     (remote @ [RemoteIndex (attribute_m (local_m index)) (locals ! localIndex)])
                     (Suc n_in) (Suc localIndex) index' position')
            else Some (remote @ [RemoteIndex (attribute_m (local_m index)) (locals ! localIndex)],
                       position))
         else if global_m (deref sets (locals ! localIndex)) <s global_m index then
           unpackIndices_while sets remoteEntries locals localEntries p_in
             remote n_in (Suc localIndex) index position
         else
           (if int (Suc n_in) < remoteEntries then
              (case MPI_Unpack_pair p_in position index of
                 None \<Rightarrow> None
               | Some (index', position') \<Rightarrow>
                   unpackIndices_while sets remoteEntries locals localEntries p_in
                     remote (Suc n_in) localIndex index' position')
            else Some (remote, position)))
      else Some (remote, position))"
  by pat_completeness auto
termination
  by (relation "measure (\<lambda>(sets, remoteEntries, locals, localEntries, p_in, remote, n_in,
                           localIndex, index, position).
                    (localEntries - localIndex) + nat (remoteEntries - int n_in))")
     auto

declare unpackIndices_while.simps [simp del]

definition unpackIndices ::
  "(nat \<Rightarrow> IndexSet) \<Rightarrow> RemoteIndex list \<Rightarrow> int \<Rightarrow> PairPtr list \<Rightarrow> nat \<Rightarrow> buffer \<Rightarrow> nat
     \<Rightarrow> (RemoteIndex list \<times> nat) option" where
  "unpackIndices sets remote remoteEntries locals localEntries p_in position =
     (if remoteEntries = 0 then Some (remote, position)
      else
        (case MPI_Unpack_pair p_in position IndexPair_default of
           None \<Rightarrow> None
         | Some (index, position') \<Rightarrow>
             unpackIndices_while sets remoteEntries locals localEntries p_in
               remote 0 0 index position'))"


section \<open>buildRemote\<close>

text \<open>
  The locals of \<^verbatim>\<open>buildRemote\<close>, on top of the memory of the process. \<^verbatim>\<open>destPairs\<close> is
  either an array of its own (\<open>destPairs_new\<close>, when \<^verbatim>\<open>sendTwo\<close>) or the very array
  \<^verbatim>\<open>sourcePairs\<close>. \<^verbatim>\<open>new char[bufferSize]\<close> is taken to be zero-filled.
\<close>

record frame = process +
  sendTwo :: bool
  sourcePublish :: nat
  destPublish :: nat
  sourcePairs :: "PairPtr list"
  destPairs_new :: "PairPtr list"
  buffer :: "buffer list"
  position :: nat

definition destPairs :: "frame \<Rightarrow> PairPtr list" where
  "destPairs f = (if sendTwo f then destPairs_new f else sourcePairs f)"

definition publishCount :: "bool \<Rightarrow> IndexSet \<Rightarrow> nat" where
  "publishCount ignorePublic s = (if ignorePublic then IndexSet_size s else noPublic s)"

text \<open>\<^verbatim>\<open>remoteIndices_.clear()\<close>: the map is emptied; the lists it pointed to are not deleted.\<close>

definition buildRemote_clear :: "process \<Rightarrow> process" where
  "buildRemote_clear p = p\<lparr>this := (this p)\<lparr>remoteIndices_m := Map.empty\<rparr>\<rparr>"

text \<open>\<^verbatim>\<open>publish = sourcePublish + destPublish\<close>, the contribution to the all-reduce.\<close>

definition buildRemote_publish :: "bool \<Rightarrow> process \<Rightarrow> nat" where
  "buildRemote_publish ignorePublic p =
     publishCount ignorePublic (indexSets p (source_m (this p))) +
     (if source_m (this p) \<noteq> dest_m (this p)
      then publishCount ignorePublic (indexSets p (dest_m (this p))) else 0)"

text \<open>Lines 630 to 680: the counts and the allocation of the arrays and the two buffers.\<close>

definition buildRemote_enter :: "bool \<Rightarrow> nat \<Rightarrow> process \<Rightarrow> frame" where
  "buildRemote_enter ignorePublic maxPublish p =
     (let two = (source_m (this p) \<noteq> dest_m (this p));
          bufferSize = MPI_Pack_size_pairs maxPublish + 3 * intSize
      in \<lparr>indexSets = indexSets p, listHeap = listHeap p, this = this p,
          behind_sendTwo = behind_sendTwo p,
          sendTwo = two,
          sourcePublish = publishCount ignorePublic (indexSets p (source_m (this p))),
          destPublish =
            (if two then publishCount ignorePublic (indexSets p (dest_m (this p))) else 0),
          sourcePairs = [], destPairs_new = [],
          buffer = [replicate bufferSize 0, replicate bufferSize 0],
          position = 0\<rparr>)"

definition buildRemote_leave :: "frame \<Rightarrow> process" where
  "buildRemote_leave f =
     \<lparr>indexSets = indexSets f, listHeap = listHeap f, this = this f,
      behind_sendTwo = behind_sendTwo f\<rparr>"

text \<open>
  The four bytes that \<^verbatim>\<open>MPI_Pack(&sendTwo, 1, MPI_INT, ...)\<close> reads: the \<^verbatim>\<open>bool\<close>, which is
  the byte 0 or 1, and the three bytes behind it. \<open>header_bytes\<close> are these four bytes
  for a process that enters \<^verbatim>\<open>buildRemote\<close> (\<^verbatim>\<open>sendTwo = (&source_ != &dest_)\<close>); with the
  least significant byte first, the \<^verbatim>\<open>int\<close> that a receiver unpacks from them into
  \<^verbatim>\<open>twoIndexSets\<close> is \<open>header_word\<close>.
\<close>

definition sendTwo_bytes :: "bool \<Rightarrow> byte \<times> byte \<times> byte \<Rightarrow> byte list" where
  "sendTwo_bytes two behind =
     (case behind of (b1, b2, b3) \<Rightarrow> [if two then 1 else 0, b1, b2, b3])"

definition header_bytes :: "'a process_scheme \<Rightarrow> byte list" where
  "header_bytes p = sendTwo_bytes (source_m (this p) \<noteq> dest_m (this p)) (behind_sendTwo p)"

definition header_word :: "'a process_scheme \<Rightarrow> 32 word" where
  "header_word p = decode_int (header_bytes p)"

text \<open>
  The block \<^verbatim>\<open>if(proc==1) { ... }\<close>: header and records are packed into \<^verbatim>\<open>p_out\<close>. The
  counts are \<^verbatim>\<open>int\<close>s. \<^verbatim>\<open>p_out\<close> is \<^verbatim>\<open>buffer[1-(proc%2)]\<close> and \<^verbatim>\<open>p_in\<close> is \<^verbatim>\<open>buffer[proc%2]\<close>.
\<close>

definition hop_pack :: "bool \<Rightarrow> nat \<Rightarrow> frame \<Rightarrow> frame option" where
  "hop_pack ignorePublic proc f =
     (if proc = 1 then
        (case MPI_Pack (sendTwo_bytes (sendTwo f) (behind_sendTwo f))
                (buffer f ! (1 - proc mod 2)) (position f) of
           None \<Rightarrow> None
         | Some (b1, pos1) \<Rightarrow>
        (case MPI_Pack_int (of_nat (sourcePublish f)) b1 pos1 of
           None \<Rightarrow> None
         | Some (b2, pos2) \<Rightarrow>
        (case MPI_Pack_int (of_nat (destPublish f)) b2 pos2 of
           None \<Rightarrow> None
         | Some (b3, pos3) \<Rightarrow>
        (case packEntries ignorePublic (indexSets f) (source_m (this f)) b3 pos3 of
           None \<Rightarrow> None
         | Some (sp, b4, pos4) \<Rightarrow>
             if sendTwo f then
               (case packEntries ignorePublic (indexSets f) (dest_m (this f)) b4 pos4 of
                  None \<Rightarrow> None
                | Some (dp, b5, pos5) \<Rightarrow>
                    Some (f\<lparr>sourcePairs := sp, destPairs_new := dp,
                            buffer := (buffer f)[1 - proc mod 2 := b5], position := pos5\<rparr>))
             else Some (f\<lparr>sourcePairs := sp,
                          buffer := (buffer f)[1 - proc mod 2 := b4], position := pos4\<rparr>)))))
      else Some f)"

text \<open>
  \<^verbatim>\<open>MPI_Ssend(p_out, position, MPI_PACKED, ...)\<close>: the message is the first
  \<^verbatim>\<open>position\<close> bytes of the output buffer.
\<close>

definition hop_message :: "nat \<Rightarrow> frame \<Rightarrow> byte list" where
  "hop_message proc f = take (position f) (buffer f ! (1 - proc mod 2))"

definition hop_receive :: "nat \<Rightarrow> byte list \<Rightarrow> frame \<Rightarrow> frame option" where
  "hop_receive proc msg f =
     (case MPI_Recv msg (buffer f ! (proc mod 2)) of
        None \<Rightarrow> None
      | Some p_in \<Rightarrow> Some (f\<lparr>buffer := (buffer f)[proc mod 2 := p_in]\<rparr>))"

text \<open>\<^verbatim>\<open>new RemoteIndexList()\<close> and \<^verbatim>\<open>delete\<close>; deleting what is not allocated is an error.\<close>

definition new_RemoteIndexList :: "frame \<Rightarrow> nat \<times> frame" where
  "new_RemoteIndexList f =
     (length (listHeap f), f\<lparr>listHeap := listHeap f @ [Some []]\<rparr>)"

definition delete_RemoteIndexList :: "nat \<Rightarrow> frame \<Rightarrow> frame option" where
  "delete_RemoteIndexList a f =
     (case heap_at (listHeap f) a of
        None \<Rightarrow> None
      | Some l \<Rightarrow> Some (f\<lparr>listHeap := (listHeap f)[a := None]\<rparr>))"

text \<open>
  Lines 726 to 756: the header is unpacked from the start of \<^verbatim>\<open>p_in\<close>, then the two
  lists are built. The result is the pair of pointers \<^verbatim>\<open>(send, receive)\<close> and the frame.
  \<^verbatim>\<open>*receive\<close> and \<^verbatim>\<open>*send\<close> are the lists just created, hence empty when
  \<^verbatim>\<open>unpackIndices\<close> is entered.
\<close>

definition hop_lists :: "nat \<Rightarrow> frame \<Rightarrow> (nat \<times> nat \<times> frame) option" where
  "hop_lists proc f =
     (case MPI_Unpack_int (buffer f ! (proc mod 2)) 0 of
        None \<Rightarrow> None
      | Some (twoIndexSets, pos1) \<Rightarrow>
     (case MPI_Unpack_int (buffer f ! (proc mod 2)) pos1 of
        None \<Rightarrow> None
      | Some (noReceive, pos2) \<Rightarrow>
     (case MPI_Unpack_int (buffer f ! (proc mod 2)) pos2 of
        None \<Rightarrow> None
      | Some (noSend, pos3) \<Rightarrow>
     (case new_RemoteIndexList f of (receive, f1) \<Rightarrow>
     (case unpackIndices (indexSets f1) [] (sint noReceive) (destPairs f1) (destPublish f1)
             (buffer f ! (proc mod 2)) pos3 of
        None \<Rightarrow> None
      | Some (rl, pos4) \<Rightarrow>
          if twoIndexSets \<noteq> 0 \<or> sendTwo f1 then
            (case new_RemoteIndexList (f1\<lparr>listHeap := (listHeap f1)[receive := Some rl]\<rparr>) of
               (send, f2) \<Rightarrow>
            (case unpackIndices (indexSets f2) [] (sint noSend) (sourcePairs f2)
                    (sourcePublish f2) (buffer f ! (proc mod 2)) pos4 of
               None \<Rightarrow> None
             | Some (sl, pos5) \<Rightarrow>
                 Some (send, receive,
                       f2\<lparr>listHeap := (listHeap f2)[send := Some sl], position := pos5\<rparr>)))
          else
            Some (receive, receive,
                  f1\<lparr>listHeap := (listHeap f1)[receive := Some rl], position := pos4\<rparr>))))))"

text \<open>\<^verbatim>\<open>std::map::insert\<close> stores nothing when the key is already present.\<close>

definition map_insert :: "('k \<rightharpoonup> 'v) \<Rightarrow> 'k \<Rightarrow> 'v \<Rightarrow> ('k \<rightharpoonup> 'v)" where
  "map_insert m k v = (case m k of None \<Rightarrow> m(k \<mapsto> v) | Some u \<Rightarrow> m)"

text \<open>Lines 758 to 768: two empty lists are deleted, anything else is recorded.\<close>

definition hop_store :: "nat \<Rightarrow> nat \<Rightarrow> nat \<Rightarrow> frame \<Rightarrow> frame option" where
  "hop_store remoteProc send receive f =
     (case heap_at (listHeap f) send of
        None \<Rightarrow> None
      | Some sl \<Rightarrow>
     (case heap_at (listHeap f) receive of
        None \<Rightarrow> None
      | Some rl \<Rightarrow>
          if sl = [] \<and> rl = [] then
            (if send = receive then delete_RemoteIndexList send f
             else
               (case delete_RemoteIndexList send f of
                  None \<Rightarrow> None
                | Some f1 \<Rightarrow> delete_RemoteIndexList receive f1))
          else
            Some (f\<lparr>this := (this f)\<lparr>remoteIndices_m :=
                      map_insert (remoteIndices_m (this f)) remoteProc (send, receive)\<rparr>\<rparr>)))"

text \<open>
  What one process does in one pass of the loop once its message has arrived: receive
  into \<^verbatim>\<open>p_in\<close>, build the lists for \<^verbatim>\<open>remoteProc = (rank+procs-proc)%procs\<close>, store them.
\<close>

definition hop_in :: "nat \<Rightarrow> nat \<Rightarrow> nat \<Rightarrow> byte list \<Rightarrow> frame \<Rightarrow> frame option" where
  "hop_in rank procs proc msg f =
     (case hop_receive proc msg f of
        None \<Rightarrow> None
      | Some f1 \<Rightarrow>
     (case hop_lists proc f1 of
        None \<Rightarrow> None
      | Some (send, receive, f2) \<Rightarrow>
          hop_store ((rank + procs - proc) mod procs) send receive f2))"

text \<open>
  One pass of the loop on all ranks: every rank packs (in the first pass), sends to
  \<^verbatim>\<open>(rank+1)%procs\<close> and receives what \<^verbatim>\<open>(rank+procs-1)%procs\<close> sent. The order of send and
  receive on even and odd ranks only serves to pair up the synchronous sends; the
  messages are the same.
\<close>

definition hop :: "bool \<Rightarrow> nat \<Rightarrow> nat \<Rightarrow> frame list \<Rightarrow> frame list option" where
  "hop ignorePublic procs proc fs =
     (case those (map (hop_pack ignorePublic proc) fs) of
        None \<Rightarrow> None
      | Some fs1 \<Rightarrow>
          those (map (\<lambda>rank. hop_in rank procs proc
                              (hop_message proc (fs1 ! ((rank + procs - 1) mod procs)))
                              (fs1 ! rank))
                     [0..<procs]))"

text \<open>\<^verbatim>\<open>for(int proc=1; proc<procs; proc++)\<close>.\<close>

function ring :: "bool \<Rightarrow> nat \<Rightarrow> nat \<Rightarrow> frame list \<Rightarrow> frame list option" where
  "ring ignorePublic procs proc fs =
     (if proc < procs then
        (case hop ignorePublic procs proc fs of
           None \<Rightarrow> None
         | Some fs' \<Rightarrow> ring ignorePublic procs (Suc proc) fs')
      else Some fs)"
  by pat_completeness auto
termination
  by (relation "measure (\<lambda>(ignorePublic, procs, proc, fs). procs - proc)") auto

declare ring.simps [simp del]

text \<open>
  \<^verbatim>\<open>buildRemote<ignorePublic>\<close> on all ranks of the communicator; the rank of a process is
  its place in the list.
\<close>

definition buildRemote :: "bool \<Rightarrow> process list \<Rightarrow> process list option" where
  "buildRemote ignorePublic w =
     (if length w = 1 then Some (map buildRemote_clear w)
      else
        (case ring ignorePublic (length w) 1
                (map (buildRemote_enter ignorePublic
                        (MPI_Allreduce_MAX (map (buildRemote_publish ignorePublic) w)))
                     (map buildRemote_clear w)) of
           None \<Rightarrow> None
         | Some fs \<Rightarrow> Some (map buildRemote_leave fs)))"

text \<open>\<^verbatim>\<open>rebuild<ignorePublic>\<close>: the call of \<^verbatim>\<open>buildLocal\<close> is commented out in the source.\<close>

definition rebuild :: "bool \<Rightarrow> process list \<Rightarrow> process list option" where
  "rebuild ignorePublic w = buildRemote ignorePublic w"

definition isSynced :: "process \<Rightarrow> bool" where
  "isSynced p =
     (sourceSeqNo_m (this p) = seqNo (indexSets p (source_m (this p))) \<and>
      destSeqNo_m (this p) = seqNo (indexSets p (dest_m (this p))))"


section \<open>Vocabulary of the properties\<close>

text \<open>
  The list of matches as the specification words the merge: compare the next remote
  record with the local pair at \<open>j\<close>; equal: emit the match, advance \<open>j\<close>, read the next
  remote record; remote smaller: discard the remote record and read the next; remote
  larger: advance \<open>j\<close>; stop when the remote stream is exhausted. Once the local array is
  used up no remote record can match any more.
\<close>

fun merge_spec :: "(nat \<Rightarrow> IndexSet) \<Rightarrow> IndexPair list \<Rightarrow> PairPtr list \<Rightarrow> RemoteIndex list" where
  "merge_spec sets [] ls = []"
| "merge_spec sets (r # rs) [] = merge_spec sets rs []"
| "merge_spec sets (r # rs) (l # ls) =
     (if global_m r = global_m (deref sets l)
      then RemoteIndex (attribute_m (local_m r)) l # merge_spec sets rs ls
      else if global_m r <s global_m (deref sets l)
      then merge_spec sets rs (l # ls)
      else merge_spec sets (r # rs) ls)"

text \<open>
  How many records the merge reads from the stream. The first record is read when there
  is one; after a match and after a discard the next record is read when there is one;
  once the local array is used up nothing more is read, so the record in hand is the
  last one read.
\<close>

fun records_read :: "(nat \<Rightarrow> IndexSet) \<Rightarrow> IndexPair list \<Rightarrow> PairPtr list \<Rightarrow> nat" where
  "records_read sets [] ls = 0"
| "records_read sets (r # rs) [] = 1"
| "records_read sets (r # rs) (l # ls) =
     (if global_m r = global_m (deref sets l)
      then Suc (records_read sets rs ls)
      else if global_m r <s global_m (deref sets l)
      then Suc (records_read sets rs (l # ls))
      else records_read sets (r # rs) ls)"



text \<open>Strictly ascending global indices: of an index set, and of the pairs a list refers to.\<close>

definition strictly_ascending :: "IndexSet \<Rightarrow> bool" where
  "strictly_ascending s = sorted_wrt (\<lambda>a b. global_m a <s global_m b) (pairs s)"

definition global_less :: "(nat \<Rightarrow> IndexSet) \<Rightarrow> PairPtr \<Rightarrow> PairPtr \<Rightarrow> bool" where
  "global_less sets p q = (global_m (deref sets p) <s global_m (deref sets q))"

definition ascending_list :: "(nat \<Rightarrow> IndexSet) \<Rightarrow> RemoteIndex list \<Rightarrow> bool" where
  "ascending_list sets l = sorted_wrt (global_less sets) (map localIndexPair l)"

text \<open>
  The pairs of source and destination that \<^verbatim>\<open>buildLocal\<close> matches, in the order in which
  it finds them; \<^verbatim>\<open>copyLocal_\<close> holds their local indices.
\<close>

fun matched_pairs ::
  "bool \<Rightarrow> IndexPair list \<Rightarrow> IndexPair list \<Rightarrow> (IndexPair \<times> IndexPair) list" where
  "matched_pairs ignorePublic (s # srest) (d # drest) =
     (if global_m d = global_m s \<and> (ignorePublic \<or> isPublic (local_m d) \<and> isPublic (local_m s))
      then (s, d) # matched_pairs ignorePublic srest drest
      else if global_m d <s global_m s
      then matched_pairs ignorePublic (s # srest) drest
      else matched_pairs ignorePublic srest (d # drest))"
| "matched_pairs ignorePublic [] ds = []"
| "matched_pairs ignorePublic ss [] = []"

definition local_indices :: "IndexPair \<times> IndexPair \<Rightarrow> 32 word \<times> 32 word" where
  "local_indices sd = (localIndex_m (local_m (fst sd)), localIndex_m (local_m (snd sd)))"

text \<open>
  What \<^verbatim>\<open>buildRemote\<close> never touches: the index sets and every member of the object but
  \<^verbatim>\<open>remoteIndices_\<close>.
\<close>

definition untouched ::
  "'a process_scheme \<Rightarrow> (nat \<Rightarrow> IndexSet) \<times> nat \<times> nat \<times> int \<times> int \<times> (32 word \<times> 32 word) list" where
  "untouched p =
     (indexSets p, source_m (this p), dest_m (this p), sourceSeqNo_m (this p),
      destSeqNo_m (this p), copyLocal_m (this p))"

text \<open>The peers met in the passes before \<open>proc\<close>.\<close>

definition earlier_peers :: "nat \<Rightarrow> nat \<Rightarrow> nat \<Rightarrow> nat set" where
  "earlier_peers rank procs proc = (\<lambda>k. (rank + procs - k) mod procs) ` {1..<proc}"

text \<open>
  The state of a frame that the loop maintains: the pointer arrays refer to pairs in
  ascending order, and every list recorded in \<^verbatim>\<open>remoteIndices_\<close> is allocated and
  ascending.
\<close>

definition recorded_ascending :: "'a process_scheme \<Rightarrow> bool" where
  "recorded_ascending p =
     (\<forall>q send receive. remoteIndices_m (this p) q = Some (send, receive) \<longrightarrow>
        (\<exists>sl rl. heap_at (listHeap p) send = Some sl \<and> heap_at (listHeap p) receive = Some rl \<and>
                 ascending_list (indexSets p) sl \<and> ascending_list (indexSets p) rl))"

definition frame_ascending :: "frame \<Rightarrow> bool" where
  "frame_ascending f =
     (sorted_wrt (global_less (indexSets f)) (sourcePairs f) \<and>
      sorted_wrt (global_less (indexSets f)) (destPairs_new f) \<and>
      recorded_ascending f)"








section \<open>Concrete processes\<close>

definition owner :: byte where
  "owner = 0"

definition border :: byte where
  "border = 1"

definition IndexPair_of :: "32 word \<Rightarrow> 32 word \<Rightarrow> byte \<Rightarrow> bool \<Rightarrow> IndexPair" where
  "IndexPair_of g l attr isPub = \<lparr>global_m = g, local_m = ParallelLocalIndex_local l attr isPub\<rparr>"

definition IndexSet_of :: "IndexPair list \<Rightarrow> IndexSet" where
  "IndexSet_of ps = \<lparr>pairs = ps, seqNo = 0\<rparr>"

text \<open>
  A process with its index sets and a newly constructed \<^verbatim>\<open>RemoteIndices\<close> object, in
  which the three bytes behind \<^verbatim>\<open>sendTwo\<close> happen to be 0; \<open>with_stack\<close> puts other bytes
  there.
\<close>

definition process_new :: "(nat \<Rightarrow> IndexSet) \<Rightarrow> nat \<Rightarrow> nat \<Rightarrow> process" where
  "process_new sets src destination =
     \<lparr>indexSets = sets, listHeap = [], this = RemoteIndices_new src destination,
      behind_sendTwo = (0, 0, 0)\<rparr>"

definition with_stack :: "byte \<times> byte \<times> byte \<Rightarrow> process list \<Rightarrow> process list" where
  "with_stack behind w = map (\<lambda>p. p\<lparr>behind_sendTwo := behind\<rparr>) w"

text \<open>
  Two ranks, one index set each, used as source and destination: globals 10, 20, 30 on
  rank 0 and 30, 40, 50 on rank 1, all public, 30 a border index on both.
\<close>

definition shared_border :: "process list" where
  "shared_border =
     [process_new (\<lambda>a. IndexSet_of [IndexPair_of 10 0 owner True, IndexPair_of 20 1 owner True,
                                     IndexPair_of 30 2 border True]) 0 0,
      process_new (\<lambda>a. IndexSet_of [IndexPair_of 30 0 border True, IndexPair_of 40 1 owner True,
                                     IndexPair_of 50 2 owner True]) 0 0]"

text \<open>
  Two ranks with distinct source (address 0) and destination (address 1). On rank 0 the
  two sets share the globals 2, 4 and 6, and the source entry of 6 is not public; on
  rank 1 they share the global 4.
\<close>

definition source_dest_ranks :: "process list" where
  "source_dest_ranks =
     [process_new (\<lambda>a. if a = 0
                        then IndexSet_of [IndexPair_of 1 0 owner True, IndexPair_of 2 1 border True,
                                          IndexPair_of 4 2 border True, IndexPair_of 6 3 owner False]
                        else IndexSet_of [IndexPair_of 2 0 border True, IndexPair_of 3 1 owner True,
                                          IndexPair_of 4 2 border True, IndexPair_of 6 3 owner True]) 0 1,
      process_new (\<lambda>a. if a = 0
                        then IndexSet_of [IndexPair_of 2 0 border True, IndexPair_of 4 1 border True]
                        else IndexSet_of [IndexPair_of 4 5 border True, IndexPair_of 8 6 owner True]) 0 1]"

text \<open>
  Three ranks with distinct source (address 0) and destination (address 1): rank 0
  publishes the source pairs 10, 20, 30; rank 1 has the single destination pair 10;
  rank 2 has nothing.
\<close>

definition three_ranks :: "process list" where
  "three_ranks =
     [process_new (\<lambda>a. if a = 0 then IndexSet_of [IndexPair_of 10 0 owner True,
                                       IndexPair_of 20 1 owner True, IndexPair_of 30 2 owner True]
                        else IndexSet_of []) 0 1,
      process_new (\<lambda>a. if a = 0 then IndexSet_of []
                        else IndexSet_of [IndexPair_of 10 0 owner True]) 0 1,
      process_new (\<lambda>a. IndexSet_of []) 0 1]"

text \<open>
  Two ranks: rank 0 uses one index set as source and destination, rank 1 has a source
  (address 0) and a different destination (address 1); all three sets hold global 30.
\<close>

definition mixed_ranks :: "process list" where
  "mixed_ranks =
     [process_new (\<lambda>a. IndexSet_of [IndexPair_of 30 0 border True]) 0 0,
      process_new (\<lambda>a. if a = 0 then IndexSet_of [IndexPair_of 30 0 border True]
                        else IndexSet_of [IndexPair_of 30 7 owner True]) 0 1]"


text \<open>The frames of the three ranks when the loop is entered.\<close>

definition three_ranks_frames :: "frame list" where
  "three_ranks_frames =
     map (buildRemote_enter False
            (MPI_Allreduce_MAX (map (buildRemote_publish False) three_ranks)))
         (map buildRemote_clear three_ranks)"





text \<open>
  Two ranks with distinct source (address 0) and destination (address 1) of the same
  content: globals 10, 20, 30 on rank 0 and 20, 30, 40 on rank 1.
\<close>

definition overlap_ranks :: "process list" where
  "overlap_ranks =
     [process_new (\<lambda>a. IndexSet_of [IndexPair_of 10 0 owner True, IndexPair_of 20 1 border True,
                                     IndexPair_of 30 2 border True]) 0 1,
      process_new (\<lambda>a. IndexSet_of [IndexPair_of 20 0 border True, IndexPair_of 30 1 border True,
                                     IndexPair_of 40 2 owner True]) 0 1]"

text \<open>
  The first pass of the loop on one rank of a world, step by step: its frame after
  packing, the message that reaches it, and its frame after the receive.
\<close>

definition first_pass_packed :: "process list \<Rightarrow> nat \<Rightarrow> frame" where
  "first_pass_packed w rank =
     (case hop_pack False 1
             (buildRemote_enter False (MPI_Allreduce_MAX (map (buildRemote_publish False) w))
                (buildRemote_clear (w ! rank))) of
        Some f \<Rightarrow> f
      | None \<Rightarrow> buildRemote_enter False (MPI_Allreduce_MAX (map (buildRemote_publish False) w))
                  (buildRemote_clear (w ! rank)))"

definition first_pass_message :: "process list \<Rightarrow> nat \<Rightarrow> byte list" where
  "first_pass_message w rank =
     hop_message 1 (first_pass_packed w ((rank + length w - 1) mod length w))"

definition first_pass_received :: "process list \<Rightarrow> nat \<Rightarrow> frame" where
  "first_pass_received w rank =
     (case hop_receive 1 (first_pass_message w rank) (first_pass_packed w rank) of
        Some f \<Rightarrow> f
      | None \<Rightarrow> first_pass_packed w rank)"


section \<open>The infinity norm of a MultiTypeBlockVector\<close>















section \<open>The codec\<close>

lemma byte_join: 
  fixes w :: "32 word"
  shows "ucast (ucast w :: byte) OR push_bit 8 (ucast (ucast (drop_bit 8 w) :: byte)) OR
        push_bit 16 (ucast (ucast (drop_bit 16 w) :: byte)) OR
        push_bit 24 (ucast (ucast (drop_bit 24 w) :: byte)) = w"
proof (rule bit_word_eqI)
  fix n assume n: "n < LENGTH(32)"
  have a: "bit (ucast (ucast w :: byte) :: 32 word) n \<longleftrightarrow> n < 8 \<and> bit w n"
    by (auto simp: bit_ucast_iff dest: bit_imp_le_length)
  have b: "bit (push_bit 8 (ucast (ucast (drop_bit 8 w) :: byte)) :: 32 word) n \<longleftrightarrow> 8 \<le> n \<and> n < 16 \<and> bit w n"
    using n by (auto simp: bit_push_bit_iff bit_ucast_iff bit_drop_bit_eq dest: bit_imp_le_length)
  have c: "bit (push_bit 16 (ucast (ucast (drop_bit 16 w) :: byte)) :: 32 word) n \<longleftrightarrow> 16 \<le> n \<and> n < 24 \<and> bit w n"
    using n by (auto simp: bit_push_bit_iff bit_ucast_iff bit_drop_bit_eq dest: bit_imp_le_length)
  have d: "bit (push_bit 24 (ucast (ucast (drop_bit 24 w) :: byte)) :: 32 word) n \<longleftrightarrow> 24 \<le> n \<and> bit w n"
    using n by (auto simp: bit_push_bit_iff bit_ucast_iff bit_drop_bit_eq dest: bit_imp_le_length)
  show "bit (ucast (ucast w :: byte) OR push_bit 8 (ucast (ucast (drop_bit 8 w) :: byte)) OR
        push_bit 16 (ucast (ucast (drop_bit 16 w) :: byte)) OR
        push_bit 24 (ucast (ucast (drop_bit 24 w) :: byte)) :: 32 word) n = bit w n"
    unfolding bit_or_iff a b c d by auto
qed

lemma decode_encode_int: "decode_int (encode_int w) = w"
  by (simp add: encode_int_def decode_int_def byte_join)

lemma length_encode_int: "length (encode_int w) = intSize"
  by (simp add: encode_int_def intSize_def)

lemma length_IndexPair_pack: "length (IndexPair_pack p) = recordSize"
  by (simp add: IndexPair_pack_def ParallelLocalIndex_pack_def recordSize_def length_encode_int)

lemma IndexPair_unpack_pack:
  "IndexPair_unpack (IndexPair_pack p) target =
     target\<lparr>global_m := global_m p,
            local_m := (local_m target)\<lparr>attribute_m := attribute_m (local_m p)\<rparr>\<rparr>"
  by (simp add: IndexPair_unpack_def IndexPair_pack_def ParallelLocalIndex_pack_def
      ParallelLocalIndex_unpack_def length_encode_int decode_encode_int)

lemma MPI_Unpack_after_Pack:
  assumes "pos + length bytes \<le> length outbuf"
  shows "MPI_Unpack (take pos outbuf @ bytes @ drop (pos + length bytes) outbuf)
           pos (length bytes) = Some (bytes, pos + length bytes)"
  using assms by (simp add: MPI_Unpack_def)

text \<open>
  Claim C7. Packing an index pair with the committed record datatype and unpacking the
  bytes into any object \<open>target\<close> gives an object whose global index and attribute are
  those of the original, while every other member (the local index, the public flag,
  the state) is the one \<open>target\<close> had before: they are not transmitted. The encoding of
  a pair is determined by its global index and its attribute byte and by nothing else.
\<close>

theorem pack_unpack_IndexPair:
  assumes "pos + recordSize \<le> length outbuf"
  shows "(\<exists>p_out. MPI_Pack_pair p outbuf pos = Some (p_out, pos + recordSize) \<and>
            MPI_Unpack_pair p_out pos target =
              Some (target\<lparr>global_m := global_m p,
                      local_m := (local_m target)\<lparr>attribute_m := attribute_m (local_m p)\<rparr>\<rparr>,
                    pos + recordSize)) \<and>
         (IndexPair_pack p = IndexPair_pack p' \<longleftrightarrow>
            global_m p = global_m p' \<and> attribute_m (local_m p) = attribute_m (local_m p'))"
proof
  let ?bs = "IndexPair_pack p"
  let ?p_out = "take pos outbuf @ ?bs @ drop (pos + recordSize) outbuf"
  have len: "length ?bs = recordSize" by (rule length_IndexPair_pack)
  have 1: "MPI_Pack_pair p outbuf pos = Some (?p_out, pos + recordSize)"
    using assms by (simp add: MPI_Pack_pair_def MPI_Pack_def len)
  have "MPI_Unpack ?p_out pos recordSize = Some (?bs, pos + recordSize)"
    using MPI_Unpack_after_Pack [of pos ?bs outbuf] assms by (simp add: len)
  then have 2: "MPI_Unpack_pair ?p_out pos target =
              Some (target\<lparr>global_m := global_m p,
                      local_m := (local_m target)\<lparr>attribute_m := attribute_m (local_m p)\<rparr>\<rparr>,
                    pos + recordSize)"
    by (simp add: MPI_Unpack_pair_def IndexPair_unpack_pack)
  from 1 2 show "\<exists>p_out. MPI_Pack_pair p outbuf pos = Some (p_out, pos + recordSize) \<and>
            MPI_Unpack_pair p_out pos target =
              Some (target\<lparr>global_m := global_m p,
                      local_m := (local_m target)\<lparr>attribute_m := attribute_m (local_m p)\<rparr>\<rparr>,
                    pos + recordSize)" by blast
next
  show "IndexPair_pack p = IndexPair_pack p' \<longleftrightarrow>
            global_m p = global_m p' \<and> attribute_m (local_m p) = attribute_m (local_m p')"
  proof
    assume eq: "IndexPair_pack p = IndexPair_pack p'"
    have g: "global_m (IndexPair_unpack (IndexPair_pack q) IndexPair_default) = global_m q" for q
      by (simp add: IndexPair_unpack_pack)
    have a: "attribute_m (local_m (IndexPair_unpack (IndexPair_pack q) IndexPair_default)) =
             attribute_m (local_m q)" for q
      by (simp add: IndexPair_unpack_pack)
    from eq g [of p] g [of p'] a [of p] a [of p']
    show "global_m p = global_m p' \<and> attribute_m (local_m p) = attribute_m (local_m p')"
      by simp
  next
    assume "global_m p = global_m p' \<and> attribute_m (local_m p) = attribute_m (local_m p')"
    then show "IndexPair_pack p = IndexPair_pack p'"
      by (simp add: IndexPair_pack_def ParallelLocalIndex_pack_def)
  qed
qed

theorem pack_unpack_IndexPair_witness:
  "(0::nat) + recordSize \<le> length (replicate 5 (0::byte)) \<and>
   (\<exists>p_out. MPI_Pack_pair \<lparr>global_m = 30, local_m = ParallelLocalIndex_local 2 1 True\<rparr>
               (replicate 5 0) 0 = Some (p_out, 0 + recordSize) \<and>
      MPI_Unpack_pair p_out 0 IndexPair_default =
        Some (\<lparr>global_m = 30,
               local_m = \<lparr>localIndex_m = 0, attribute_m = 1, public_m = 0, state_m = VALID\<rparr>\<rparr>,
              0 + recordSize))"
  using pack_unpack_IndexPair [of 0 "replicate 5 0"
      "\<lparr>global_m = 30, local_m = ParallelLocalIndex_local 2 1 True\<rparr>" IndexPair_default
      IndexPair_default]
  by (simp add: recordSize_def intSize_def ParallelLocalIndex_local_def IndexPair_default_def
      ParallelLocalIndex_default_def)


section \<open>buildLocal and the matched pairs\<close>

lemma matched_pairs_match:
  "global_m d = global_m s \<and> (ip \<or> isPublic (local_m d) \<and> isPublic (local_m s)) \<Longrightarrow>
   matched_pairs ip (s # srest) (d # drest) = (s, d) # matched_pairs ip srest drest"
  by simp

lemma matched_pairs_dest:
  "\<not> (global_m d = global_m s \<and> (ip \<or> isPublic (local_m d) \<and> isPublic (local_m s))) \<Longrightarrow>
   global_m d <s global_m s \<Longrightarrow>
   matched_pairs ip (s # srest) (d # drest) = matched_pairs ip (s # srest) drest"
  by (simp only: matched_pairs.simps if_False if_True)

lemma matched_pairs_source:
  "\<not> (global_m d = global_m s \<and> (ip \<or> isPublic (local_m d) \<and> isPublic (local_m s))) \<Longrightarrow>
   \<not> global_m d <s global_m s \<Longrightarrow>
   matched_pairs ip (s # srest) (d # drest) = matched_pairs ip srest (d # drest)"
  by (simp only: matched_pairs.simps if_False if_True)

lemma buildLocal_while_match:
  "global_m d = global_m s \<and> (ip \<or> isPublic (local_m d) \<and> isPublic (local_m s)) \<Longrightarrow>
   buildLocal_while ip (s # srest) (d # drest) copied =
     buildLocal_while ip srest drest (copied @ [(localIndex_m (local_m s), localIndex_m (local_m d))])"
  by simp

lemma buildLocal_while_dest:
  "\<not> (global_m d = global_m s \<and> (ip \<or> isPublic (local_m d) \<and> isPublic (local_m s))) \<Longrightarrow>
   global_m d <s global_m s \<Longrightarrow>
   buildLocal_while ip (s # srest) (d # drest) copied = buildLocal_while ip (s # srest) drest copied"
  by (simp only: buildLocal_while.simps if_False if_True)

lemma buildLocal_while_source:
  "\<not> (global_m d = global_m s \<and> (ip \<or> isPublic (local_m d) \<and> isPublic (local_m s))) \<Longrightarrow>
   \<not> global_m d <s global_m s \<Longrightarrow>
   buildLocal_while ip (s # srest) (d # drest) copied = buildLocal_while ip srest (d # drest) copied"
  by (simp only: buildLocal_while.simps if_False if_True)

lemma buildLocal_while_matched:
  "buildLocal_while ip ss ds copied = copied @ map local_indices (matched_pairs ip ss ds)"
proof (induction ip ss ds copied rule: buildLocal_while.induct)
  case (1 ip s srest d drest copied)
  show ?case
  proof (cases "global_m d = global_m s \<and> (ip \<or> isPublic (local_m d) \<and> isPublic (local_m s))")
    case True
    from "1.IH"(1) [OF True] show ?thesis
      by (simp only: buildLocal_while_match [OF True] matched_pairs_match [OF True])
         (simp add: local_indices_def)
  next
    case False
    show ?thesis
    proof (cases "global_m d <s global_m s")
      case True
      from "1.IH"(2) [OF False True] show ?thesis
        by (simp only: buildLocal_while_dest [OF False True] matched_pairs_dest [OF False True])
    next
      case nlt: False
      from "1.IH"(3) [OF False nlt] show ?thesis
        by (simp only: buildLocal_while_source [OF False nlt] matched_pairs_source [OF False nlt])
    qed
  qed
qed simp_all

lemma matched_pairs_subset:
  "set (matched_pairs ip ss ds) \<subseteq> set ss \<times> set ds"
proof (induction ip ss ds rule: matched_pairs.induct)
  case (1 ip s srest d drest)
  show ?case
  proof (cases "global_m d = global_m s \<and> (ip \<or> isPublic (local_m d) \<and> isPublic (local_m s))")
    case True
    have "matched_pairs ip (s # srest) (d # drest) = (s, d) # matched_pairs ip srest drest"
      by (rule matched_pairs_match [OF True])
    with "1.IH"(1) [OF True] show ?thesis by auto
  next
    case False
    show ?thesis
    proof (cases "global_m d <s global_m s")
      case True
      have "matched_pairs ip (s # srest) (d # drest) = matched_pairs ip (s # srest) drest"
        by (rule matched_pairs_dest [OF False True])
      with "1.IH"(2) [OF False True] show ?thesis by auto
    next
      case nlt: False
      have "matched_pairs ip (s # srest) (d # drest) = matched_pairs ip srest (d # drest)"
        by (rule matched_pairs_source [OF False nlt])
      with "1.IH"(3) [OF False nlt] show ?thesis by auto
    qed
  qed
qed simp_all

lemma matched_pairs_sorted:
  "sorted_wrt (\<lambda>a b. global_m a <s global_m b) ss \<Longrightarrow>
   sorted_wrt (\<lambda>x y. global_m (fst x) <s global_m (fst y)) (matched_pairs ip ss ds)"
proof (induction ip ss ds rule: matched_pairs.induct)
  case (1 ip s srest d drest)
  from "1.prems" have ss: "sorted_wrt (\<lambda>a b. global_m a <s global_m b) srest"
    and s_lt: "\<And>x. x \<in> set srest \<Longrightarrow> global_m s <s global_m x"
    by auto
  show ?case
  proof (cases "global_m d = global_m s \<and> (ip \<or> isPublic (local_m d) \<and> isPublic (local_m s))")
    case True
    have eq: "matched_pairs ip (s # srest) (d # drest) = (s, d) # matched_pairs ip srest drest"
      by (rule matched_pairs_match [OF True])
    have "\<forall>x \<in> set (matched_pairs ip srest drest). global_m s <s global_m (fst x)"
      using matched_pairs_subset [of ip srest drest] s_lt by auto
    with "1.IH"(1) [OF True ss] show ?thesis unfolding eq by simp
  next
    case False
    show ?thesis
    proof (cases "global_m d <s global_m s")
      case True
      have "matched_pairs ip (s # srest) (d # drest) = matched_pairs ip (s # srest) drest"
        by (rule matched_pairs_dest [OF False True])
      with "1.IH"(2) [OF False True "1.prems"] show ?thesis by simp
    next
      case nlt: False
      have "matched_pairs ip (s # srest) (d # drest) = matched_pairs ip srest (d # drest)"
        by (rule matched_pairs_source [OF False nlt])
      with "1.IH"(3) [OF False nlt ss] show ?thesis by simp
    qed
  qed
qed simp_all

lemma matched_pairs_iff:
  "sorted_wrt (\<lambda>a b. global_m a <s global_m b) ss \<Longrightarrow>
   sorted_wrt (\<lambda>a b. global_m a <s global_m b) ds \<Longrightarrow>
   (x, y) \<in> set (matched_pairs ip ss ds) \<longleftrightarrow>
     x \<in> set ss \<and> y \<in> set ds \<and> global_m x = global_m y \<and>
     (ip \<or> isPublic (local_m x) \<and> isPublic (local_m y))"
proof (induction ip ss ds rule: matched_pairs.induct)
  case (1 ip s srest d drest)
  from "1.prems" have ss: "sorted_wrt (\<lambda>a b. global_m a <s global_m b) srest"
    and ds: "sorted_wrt (\<lambda>a b. global_m a <s global_m b) drest"
    and s_lt: "\<And>x. x \<in> set srest \<Longrightarrow> global_m s <s global_m x"
    and d_lt: "\<And>x. x \<in> set drest \<Longrightarrow> global_m d <s global_m x"
    by auto
  let ?ok = "\<lambda>s d. global_m s = global_m d \<and> (ip \<or> isPublic (local_m s) \<and> isPublic (local_m d))"
  have irr: "\<not> global_m u <s global_m u" for u :: IndexPair by simp
  show ?case
  proof (cases "global_m d = global_m s \<and> (ip \<or> isPublic (local_m d) \<and> isPublic (local_m s))")
    case True
    have eq: "matched_pairs ip (s # srest) (d # drest) = (s, d) # matched_pairs ip srest drest"
      by (rule matched_pairs_match [OF True])
    have a: "global_m s \<noteq> global_m u" if "u \<in> set drest" for u
      using d_lt [OF that] True by auto
    have b: "global_m u \<noteq> global_m d" if "u \<in> set srest" for u
      using s_lt [OF that] True by auto
    have ih: "(x, y) \<in> set (matched_pairs ip srest drest) \<longleftrightarrow>
                x \<in> set srest \<and> y \<in> set drest \<and> ?ok x y"
      by (rule "1.IH"(1) [OF True ss ds])
    have ok: "?ok s d" using True by auto
    have "(x, y) \<in> set (matched_pairs ip (s # srest) (d # drest)) \<longleftrightarrow>
            (x = s \<and> y = d) \<or> (x \<in> set srest \<and> y \<in> set drest \<and> ?ok x y)"
      unfolding eq using ih by simp
    also have "\<dots> \<longleftrightarrow> x \<in> set (s # srest) \<and> y \<in> set (d # drest) \<and> ?ok x y"
      using a [of y] b [of x] ok by auto
    finally show ?thesis .
  next
    case False
    show ?thesis
    proof (cases "global_m d <s global_m s")
      case True
      have eq: "matched_pairs ip (s # srest) (d # drest) = matched_pairs ip (s # srest) drest"
        by (rule matched_pairs_dest [OF False True])
      have a: "global_m u \<noteq> global_m d" if "u \<in> set (s # srest)" for u
      proof (cases "u = s")
        case True with \<open>global_m d <s global_m s\<close> show ?thesis by auto
      next
        case False
        with that have "global_m s <s global_m u" using s_lt by auto
        with \<open>global_m d <s global_m s\<close> have "global_m d <s global_m u"
          by (rule signed.less_trans)
        then show ?thesis by auto
      qed
      have ih: "(x, y) \<in> set (matched_pairs ip (s # srest) drest) \<longleftrightarrow>
                x \<in> set (s # srest) \<and> y \<in> set drest \<and> ?ok x y"
        by (rule "1.IH"(2) [OF False True "1.prems"(1) ds])
      have "(x \<in> set (s # srest) \<and> y \<in> set drest \<and> ?ok x y) \<longleftrightarrow>
            x \<in> set (s # srest) \<and> y \<in> set (d # drest) \<and> ?ok x y"
        using a [of x] by auto
      with ih show ?thesis unfolding eq by (rule trans)
    next
      case nlt: False
      have eq: "matched_pairs ip (s # srest) (d # drest) = matched_pairs ip srest (d # drest)"
        by (rule matched_pairs_source [OF False nlt])
      have sd: "\<not> ?ok s d" using False by auto
      have a: "global_m s \<noteq> global_m u" if "u \<in> set drest" for u
      proof
        assume "global_m s = global_m u"
        with d_lt [OF that] nlt show False by simp
      qed
      have ih: "(x, y) \<in> set (matched_pairs ip srest (d # drest)) \<longleftrightarrow>
                x \<in> set srest \<and> y \<in> set (d # drest) \<and> ?ok x y"
        by (rule "1.IH"(3) [OF False nlt ss "1.prems"(2)])
      have "(x \<in> set srest \<and> y \<in> set (d # drest) \<and> ?ok x y) \<longleftrightarrow>
            x \<in> set (s # srest) \<and> y \<in> set (d # drest) \<and> ?ok x y"
        using a [of y] sd by auto
      with ih show ?thesis unfolding eq by (rule trans)
    qed
  qed
qed simp_all


section \<open>The ring, rank by rank\<close>

lemma those_Some_nth:
  "those xs = Some ys \<Longrightarrow> length ys = length xs \<and> (\<forall>i<length xs. xs ! i = Some (ys ! i))"
proof (induction xs arbitrary: ys)
  case Nil
  then show ?case by simp
next
  case (Cons x xs)
  then obtain y ys' where x: "x = Some y" and t: "those xs = Some ys'" and ys: "ys = y # ys'"
    by (auto split: option.splits)
  from Cons.IH [OF t] have "length ys' = length xs" and n: "\<forall>i<length xs. xs ! i = Some (ys' ! i)"
    by simp_all
  then show ?case using x ys by (auto simp: nth_Cons split: nat.splits)
qed

lemma hop_rank:
  assumes "hop ip procs proc fs = Some fs'" and "procs = length fs" and "r < procs"
  shows "length fs' = procs \<and>
         (\<exists>f1 msg. hop_pack ip proc (fs ! r) = Some f1 \<and> hop_in r procs proc msg f1 = Some (fs' ! r))"
proof -
  from assms(1) obtain fs1 where
    p: "those (map (hop_pack ip proc) fs) = Some fs1" and
    h: "those (map (\<lambda>rank. hop_in rank procs proc
                              (hop_message proc (fs1 ! ((rank + procs - 1) mod procs)))
                              (fs1 ! rank)) [0..<procs]) = Some fs'"
    by (auto simp: hop_def split: option.splits)
  from those_Some_nth [OF p] assms(2,3) have 1: "hop_pack ip proc (fs ! r) = Some (fs1 ! r)"
    by auto
  from those_Some_nth [OF h] assms(3)
  have len: "length fs' = procs"
    and 2: "hop_in r procs proc (hop_message proc (fs1 ! ((r + procs - 1) mod procs))) (fs1 ! r)
              = Some (fs' ! r)"
    by auto
  from 1 2 len show ?thesis by blast
qed

lemma ring_invariant:
  assumes "ring ip procs proc fs = Some fs'" and "procs = length fs"
    and "\<And>r. r < procs \<Longrightarrow> I r (fs ! r)"
    and step: "\<And>r pr f f1 msg f'. r < procs \<Longrightarrow> I r f \<Longrightarrow> hop_pack ip pr f = Some f1 \<Longrightarrow>
                 hop_in r procs pr msg f1 = Some f' \<Longrightarrow> I r f'"
  shows "length fs' = procs \<and> (\<forall>r<procs. I r (fs' ! r))"
  using assms
proof (induction ip procs proc fs rule: ring.induct)
  case (1 ip procs proc fs)
  show ?case
  proof (cases "proc < procs")
    case False
    with "1.prems" show ?thesis by (simp add: ring.simps)
  next
    case True
    with "1.prems"(1) obtain fs1 where h: "hop ip procs proc fs = Some fs1"
      and r: "ring ip procs (Suc proc) fs1 = Some fs'"
      by (auto simp: ring.simps [of ip procs proc fs] split: option.splits)
    have len: "procs = length fs1" using hop_rank [OF h "1.prems"(2) True] by simp
    have inv: "I r (fs1 ! r)" if "r < procs" for r
    proof -
      from hop_rank [OF h "1.prems"(2) that] obtain f1 msg where
        "hop_pack ip proc (fs ! r) = Some f1" "hop_in r procs proc msg f1 = Some (fs1 ! r)"
        by blast
      with "1.prems"(4) [OF that "1.prems"(3) [OF that]] show ?thesis by blast
    qed
    from "1.IH" [OF True h r len inv "1.prems"(4)] show ?thesis by simp
  qed
qed

lemma hop_pack_same:
  assumes "hop_pack ip proc f = Some f'"
  shows "this f' = this f \<and> indexSets f' = indexSets f \<and> listHeap f' = listHeap f \<and>
         sendTwo f' = sendTwo f \<and> sourcePublish f' = sourcePublish f \<and>
         destPublish f' = destPublish f"
  using assms by (auto simp: hop_pack_def split: if_splits option.splits prod.splits)

lemma hop_receive_same:
  assumes "hop_receive proc msg f = Some f'"
  shows "this f' = this f \<and> indexSets f' = indexSets f \<and> listHeap f' = listHeap f \<and>
         sendTwo f' = sendTwo f \<and> sourcePublish f' = sourcePublish f \<and>
         destPublish f' = destPublish f \<and> sourcePairs f' = sourcePairs f \<and>
         destPairs_new f' = destPairs_new f \<and> position f' = position f"
  using assms by (auto simp: hop_receive_def split: option.splits)

lemma hop_lists_same:
  assumes "hop_lists proc f = Some (send, receive, f')"
  shows "this f' = this f \<and> indexSets f' = indexSets f \<and>
         sendTwo f' = sendTwo f \<and> sourcePublish f' = sourcePublish f \<and>
         destPublish f' = destPublish f \<and> sourcePairs f' = sourcePairs f \<and>
         destPairs_new f' = destPairs_new f \<and> buffer f' = buffer f"
  using assms
  by (auto simp: hop_lists_def new_RemoteIndexList_def split: if_splits option.splits prod.splits)

lemma delete_RemoteIndexList_same:
  assumes "delete_RemoteIndexList a f = Some f'"
  shows "f' = f\<lparr>listHeap := (listHeap f)[a := None]\<rparr>"
  using assms by (auto simp: delete_RemoteIndexList_def split: option.splits)

lemma hop_store_untouched:
  assumes "hop_store remoteProc send receive f = Some f'"
  shows "untouched f' = untouched f"
  using assms
  by (auto simp: hop_store_def untouched_def dest!: delete_RemoteIndexList_same
           split: if_splits option.splits)

lemma hop_in_untouched:
  assumes "hop_in r procs proc msg f = Some f'"
  shows "untouched f' = untouched f"
proof -
  from assms obtain f1 send receive f2 where
    1: "hop_receive proc msg f = Some f1" and 2: "hop_lists proc f1 = Some (send, receive, f2)"
    and 3: "hop_store ((r + procs - proc) mod procs) send receive f2 = Some f'"
    by (auto simp: hop_in_def split: option.splits)
  from hop_receive_same [OF 1] have "untouched f1 = untouched f"
    by (simp add: untouched_def)
  moreover from hop_lists_same [OF 2] have "untouched f2 = untouched f1"
    by (simp add: untouched_def)
  moreover note hop_store_untouched [OF 3]
  ultimately show ?thesis by simp
qed


section \<open>What rebuild leaves alone\<close>

lemma hop_step_untouched:
  assumes "hop_pack ip pr f = Some f1" and "hop_in r procs pr msg f1 = Some f'"
  shows "untouched f' = untouched f"
proof -
  from hop_pack_same [OF assms(1)] have "untouched f1 = untouched f"
    by (simp add: untouched_def)
  with hop_in_untouched [OF assms(2)] show ?thesis by simp
qed

lemma untouched_enter:
  "untouched (buildRemote_enter ip m (buildRemote_clear p)) = untouched p"
  by (simp add: untouched_def buildRemote_enter_def buildRemote_clear_def Let_def)

lemma untouched_leave: "untouched (buildRemote_leave f) = untouched f"
  by (simp add: untouched_def buildRemote_leave_def)

lemma rebuild_untouched:
  assumes "rebuild ip w = Some w'" and "r < length w"
  shows "length w' = length w \<and> untouched (w' ! r) = untouched (w ! r)"
proof (cases "length w = 1")
  case True
  with assms(1) have "w' = map buildRemote_clear w"
    by (simp add: rebuild_def buildRemote_def)
  with assms(2) show ?thesis by (simp add: untouched_def buildRemote_clear_def)
next
  case False
  let ?fs = "map (buildRemote_enter ip (MPI_Allreduce_MAX (map (buildRemote_publish ip) w)))
               (map buildRemote_clear w)"
  from False assms(1) obtain fs where ring: "ring ip (length w) 1 ?fs = Some fs"
    and w': "w' = map buildRemote_leave fs"
    by (auto simp: rebuild_def buildRemote_def split: option.splits)
  have "length fs = length w \<and> (\<forall>r<length w. untouched (fs ! r) = untouched (w ! r))"
  proof (rule ring_invariant [OF ring])
    show "length w = length ?fs" by simp
  next
    fix r assume "r < length w"
    then show "untouched (?fs ! r) = untouched (w ! r)" by (simp add: untouched_enter)
  next
    fix r pr f f1 msg f'
    assume "untouched f = untouched (w ! r)" "hop_pack ip pr f = Some f1"
      "hop_in r (length w) pr msg f1 = Some f'"
    then show "untouched f' = untouched (w ! r)" using hop_step_untouched by metis
  qed
  with assms(2) w' show ?thesis by (simp add: untouched_leave)
qed


section \<open>Sequence numbers\<close>

text \<open>
  Claim C1. After \<^verbatim>\<open>rebuild\<close> the stored sequence numbers should equal those of the index
  sets, so that \<^verbatim>\<open>isSynced()\<close> holds; before the first \<^verbatim>\<open>rebuild\<close> they are \<open>-1\<close>. The second
  part is \<open>RemoteIndices_new\<close>. For the first part: \<^verbatim>\<open>rebuild\<close> never assigns
  \<^verbatim>\<open>sourceSeqNo_\<close> or \<^verbatim>\<open>destSeqNo_\<close> (see \<open>rebuild_untouched\<close>). On the two ranks of
  \<open>shared_border\<close>, whose index sets have sequence number 0, the stored numbers are
  still \<open>-1\<close> after \<^verbatim>\<open>rebuild\<close> and \<^verbatim>\<open>isSynced()\<close> is false.
\<close>

theorem rebuild_not_synced:
  "rebuild False shared_border \<noteq> None \<and>
   sourceSeqNo_m (this (the (rebuild False shared_border) ! 0)) = - 1 \<and>
   destSeqNo_m (this (the (rebuild False shared_border) ! 0)) = - 1 \<and>
   seqNo (indexSets (the (rebuild False shared_border) ! 0)
            (source_m (this (the (rebuild False shared_border) ! 0)))) = 0 \<and>
   seqNo (indexSets (the (rebuild False shared_border) ! 0)
            (dest_m (this (the (rebuild False shared_border) ! 0)))) = 0 \<and>
   \<not> isSynced (the (rebuild False shared_border) ! 0)"
  by code_simp


section \<open>One index set as source and destination\<close>

text \<open>
  Claim C2. Two ranks with globals 10, 20, 30 and 30, 40, 50, source and destination the
  same set, \<^verbatim>\<open>ignorePublic = false\<close>: each rank should end with one entry, for the other
  rank, holding the border index 30. In the code \<^verbatim>\<open>destPublish\<close> is 0 when one set is
  sent, and it is passed as the number of entries of \<^verbatim>\<open>destPairs\<close>; the merge loop is never
  entered, the one list is empty and is deleted. Neither rank records the other.
\<close>

theorem shared_border_no_peers:
  "rebuild False shared_border \<noteq> None \<and>
   remoteIndices_m (this (the (rebuild False shared_border) ! 0)) 1 = None \<and>
   remoteIndices_m (this (the (rebuild False shared_border) ! 1)) 0 = None"
  by code_simp

text \<open>
  The same run with the bytes 3, 0, 0 behind \<^verbatim>\<open>sendTwo\<close>: the header word is 768, so two
  lists are built where one was before, both are empty, and again neither rank records
  the other.
\<close>

lemma shared_border_stack_bytes:
  "rebuild False (with_stack (3, 0, 0) shared_border) \<noteq> None \<and>
   header_word (with_stack (3, 0, 0) shared_border ! 0) = 768 \<and>
   remoteIndices_m (this (the (rebuild False (with_stack (3, 0, 0) shared_border)) ! 0)) 1 = None \<and>
   remoteIndices_m (this (the (rebuild False (with_stack (3, 0, 0) shared_border)) ! 1)) 0 = None"
  by code_simp


section \<open>copyLocal\<close>

text \<open>
  What \<^verbatim>\<open>buildLocal<ignorePublic>\<close> leaves in \<^verbatim>\<open>copyLocal_\<close>, on index sets that are strictly
  ascending in the global index: the local indices of exactly the pairs of a source entry
  and a destination entry with the same global index that are both public (or any such
  pair when \<^verbatim>\<open>ignorePublic\<close>), in ascending order of the global index.
\<close>

lemma buildLocal_copyLocal:
  assumes "strictly_ascending (indexSets p (source_m (this p)))"
    and "strictly_ascending (indexSets p (dest_m (this p)))"
  shows "\<exists>ms. copyLocal_m (this (buildLocal ignorePublic p)) = map local_indices ms \<and>
              sorted_wrt (\<lambda>x y. global_m (fst x) <s global_m (fst y)) ms \<and>
              set ms = {(s, d). s \<in> set (pairs (indexSets p (source_m (this p)))) \<and>
                                d \<in> set (pairs (indexSets p (dest_m (this p)))) \<and>
                                global_m s = global_m d \<and>
                                (ignorePublic \<or> isPublic (local_m s) \<and> isPublic (local_m d))}"
proof -
  let ?S = "pairs (indexSets p (source_m (this p)))"
  let ?D = "pairs (indexSets p (dest_m (this p)))"
  let ?ms = "matched_pairs ignorePublic ?S ?D"
  have S: "sorted_wrt (\<lambda>a b. global_m a <s global_m b) ?S"
    and D: "sorted_wrt (\<lambda>a b. global_m a <s global_m b) ?D"
    using assms by (simp_all add: strictly_ascending_def)
  have 1: "copyLocal_m (this (buildLocal ignorePublic p)) = map local_indices ?ms"
    by (simp add: buildLocal_def buildLocal_while_matched)
  have 2: "sorted_wrt (\<lambda>x y. global_m (fst x) <s global_m (fst y)) ?ms"
    by (rule matched_pairs_sorted [OF S])
  have 3: "set ?ms = {(s, d). s \<in> set ?S \<and> d \<in> set ?D \<and> global_m s = global_m d \<and>
                        (ignorePublic \<or> isPublic (local_m s) \<and> isPublic (local_m d))}"
    using matched_pairs_iff [OF S D] by auto
  from 1 2 3 show ?thesis by blast
qed

text \<open>
  Claim C3. After \<^verbatim>\<open>rebuild\<close>, \<^verbatim>\<open>copyLocal_\<close> should hold the pairs of local indices of the
  source and destination entries with the same global index, both public, in ascending
  order of the global index. That is what \<^verbatim>\<open>buildLocal\<close> computes (\<open>buildLocal_copyLocal\<close>),
  but its call in \<^verbatim>\<open>rebuild\<close> is commented out, and \<^verbatim>\<open>rebuild\<close> leaves \<^verbatim>\<open>copyLocal_\<close> as it
  was on every rank (\<open>rebuild_untouched\<close>). On the two ranks of \<open>source_dest_ranks\<close>
  the ring exchange completes and records the peers, and \<^verbatim>\<open>copyLocal_\<close> is empty on both
  ranks, where the claim gives \<open>[(1, 0), (2, 2)]\<close> on rank 0 (the globals 2 and 4; the
  source entry of 6 is not public) and \<open>[(1, 5)]\<close> on rank 1 (the global 4).
\<close>

theorem rebuild_skips_buildLocal:
  "rebuild False source_dest_ranks \<noteq> None \<and>
   map (\<lambda>p. copyLocal_m (this p)) (the (rebuild False source_dest_ranks)) = [[], []] \<and>
   map (\<lambda>p. copyLocal_m (this (buildLocal False p))) (the (rebuild False source_dest_ranks)) =
     [[(1, 0), (2, 2)], [(1, 5)]] \<and>
   map (\<lambda>p. remoteIndices_m (this p) 0) (the (rebuild False source_dest_ranks)) = [None, Some (1, 0)] \<and>
   map (\<lambda>p. remoteIndices_m (this p) 1) (the (rebuild False source_dest_ranks)) = [Some (1, 0), None]"
  by code_simp


section \<open>Forwarding around the ring\<close>

text \<open>
  Claim C4. In a pass after the first, a rank should forward the whole message it
  received in the pass before. The number of bytes sent is the position cursor, which
  after unpacking stands behind the last record that was read, and \<^verbatim>\<open>unpackIndices\<close> stops
  reading as soon as the local array is used up. With three ranks, rank 0 packs 27
  bytes (header and the records 10, 20, 30). Rank 1 has the single local pair 10: it
  reads the records 10 and 20, its cursor stands at 22, and 22 bytes is what it sends
  in the second pass.
\<close>

theorem forwards_truncated:
  "those (map (hop_pack False 1) three_ranks_frames) \<noteq> None \<and>
   length (hop_message 1 (the (those (map (hop_pack False 1) three_ranks_frames)) ! 0)) = 27 \<and>
   hop False 3 1 three_ranks_frames \<noteq> None \<and>
   position (the (hop False 3 1 three_ranks_frames) ! 1) = 22 \<and>
   length (hop_message 2 (the (hop False 3 1 three_ranks_frames) ! 1)) = 22"
  by code_simp

text \<open>With the bytes 3, 0, 0 behind \<^verbatim>\<open>sendTwo\<close> the cursor of rank 1 stands at 22 all the same.\<close>

lemma three_ranks_stack_bytes:
  "hop False 3 1 (map (\<lambda>f. f\<lparr>behind_sendTwo := (3, 0, 0)\<rparr>) three_ranks_frames) \<noteq> None \<and>
   position (the (hop False 3 1 (map (\<lambda>f. f\<lparr>behind_sendTwo := (3, 0, 0)\<rparr>) three_ranks_frames)) ! 1) = 22"
  by code_simp


section \<open>unpackIndices as a merge\<close>

subsection \<open>The branches of the loop\<close>

lemma unpackIndices_while_done:
  "\<not> localIndex < localEntries \<Longrightarrow>
   unpackIndices_while sets remoteEntries locals localEntries p_in remote n_in localIndex index pos
     = Some (remote, pos)"
  by (subst unpackIndices_while.simps) simp

lemma unpackIndices_while_match_more:
  "localIndex < localEntries \<Longrightarrow> localIndex < length locals \<Longrightarrow>
   global_m (deref sets (locals ! localIndex)) = global_m index \<Longrightarrow>
   int (Suc n_in) < remoteEntries \<Longrightarrow>
   MPI_Unpack_pair p_in pos index = Some (index', pos') \<Longrightarrow>
   unpackIndices_while sets remoteEntries locals localEntries p_in remote n_in localIndex index pos
     = unpackIndices_while sets remoteEntries locals localEntries p_in
         (remote @ [RemoteIndex (attribute_m (local_m index)) (locals ! localIndex)])
         (Suc n_in) (Suc localIndex) index' pos'"
  by (subst unpackIndices_while.simps) simp

lemma unpackIndices_while_match_last:
  "localIndex < localEntries \<Longrightarrow> localIndex < length locals \<Longrightarrow>
   global_m (deref sets (locals ! localIndex)) = global_m index \<Longrightarrow>
   \<not> int (Suc n_in) < remoteEntries \<Longrightarrow>
   unpackIndices_while sets remoteEntries locals localEntries p_in remote n_in localIndex index pos
     = Some (remote @ [RemoteIndex (attribute_m (local_m index)) (locals ! localIndex)], pos)"
  by (subst unpackIndices_while.simps) simp

lemma unpackIndices_while_advance:
  "localIndex < localEntries \<Longrightarrow> localIndex < length locals \<Longrightarrow>
   global_m (deref sets (locals ! localIndex)) \<noteq> global_m index \<Longrightarrow>
   global_m (deref sets (locals ! localIndex)) <s global_m index \<Longrightarrow>
   unpackIndices_while sets remoteEntries locals localEntries p_in remote n_in localIndex index pos
     = unpackIndices_while sets remoteEntries locals localEntries p_in remote n_in
         (Suc localIndex) index pos"
  by (subst unpackIndices_while.simps) simp

lemma unpackIndices_while_discard_more:
  "localIndex < localEntries \<Longrightarrow> localIndex < length locals \<Longrightarrow>
   global_m (deref sets (locals ! localIndex)) \<noteq> global_m index \<Longrightarrow>
   \<not> global_m (deref sets (locals ! localIndex)) <s global_m index \<Longrightarrow>
   int (Suc n_in) < remoteEntries \<Longrightarrow>
   MPI_Unpack_pair p_in pos index = Some (index', pos') \<Longrightarrow>
   unpackIndices_while sets remoteEntries locals localEntries p_in remote n_in localIndex index pos
     = unpackIndices_while sets remoteEntries locals localEntries p_in remote
         (Suc n_in) localIndex index' pos'"
  by (subst unpackIndices_while.simps) simp

lemma unpackIndices_while_discard_last:
  "localIndex < localEntries \<Longrightarrow> localIndex < length locals \<Longrightarrow>
   global_m (deref sets (locals ! localIndex)) \<noteq> global_m index \<Longrightarrow>
   \<not> global_m (deref sets (locals ! localIndex)) <s global_m index \<Longrightarrow>
   \<not> int (Suc n_in) < remoteEntries \<Longrightarrow>
   unpackIndices_while sets remoteEntries locals localEntries p_in remote n_in localIndex index pos
     = Some (remote, pos)"
  by (subst unpackIndices_while.simps) simp

subsection \<open>The merge of the specification\<close>


lemma merge_spec_head:
  "global_m a = global_m b \<Longrightarrow> attribute_m (local_m a) = attribute_m (local_m b) \<Longrightarrow>
   merge_spec sets (a # rs) ls = merge_spec sets (b # rs) ls"
  by (induction ls) simp_all


lemma records_read_le: "records_read sets rs ls \<le> length rs"
  by (induction sets rs ls rule: records_read.induct) auto









section \<open>Lists in ascending order\<close>

lemma unpackIndices_while_unwritten:
  "localIndex < localEntries \<Longrightarrow> length locals \<le> localIndex \<Longrightarrow>
   unpackIndices_while sets remoteEntries locals localEntries p_in remote n_in localIndex index pos
     = None"
  by (subst unpackIndices_while.simps) simp

lemma unpackIndices_while_match_fail:
  "localIndex < localEntries \<Longrightarrow> localIndex < length locals \<Longrightarrow>
   global_m (deref sets (locals ! localIndex)) = global_m index \<Longrightarrow>
   int (Suc n_in) < remoteEntries \<Longrightarrow>
   MPI_Unpack_pair p_in pos index = None \<Longrightarrow>
   unpackIndices_while sets remoteEntries locals localEntries p_in remote n_in localIndex index pos
     = None"
  by (subst unpackIndices_while.simps) simp

lemma unpackIndices_while_discard_fail:
  "localIndex < localEntries \<Longrightarrow> localIndex < length locals \<Longrightarrow>
   global_m (deref sets (locals ! localIndex)) \<noteq> global_m index \<Longrightarrow>
   \<not> global_m (deref sets (locals ! localIndex)) <s global_m index \<Longrightarrow>
   int (Suc n_in) < remoteEntries \<Longrightarrow>
   MPI_Unpack_pair p_in pos index = None \<Longrightarrow>
   unpackIndices_while sets remoteEntries locals localEntries p_in remote n_in localIndex index pos
     = None"
  by (subst unpackIndices_while.simps) simp

lemma subseq_drop_Suc:
  "subseq xs (drop (Suc i) ys) \<Longrightarrow> subseq xs (drop i ys)"
proof (cases "i < length ys")
  case True
  assume "subseq xs (drop (Suc i) ys)"
  then have "subseq xs (ys ! i # drop (Suc i) ys)" by (rule list_emb_Cons)
  then show ?thesis using True by (simp add: Cons_nth_drop_Suc)
next
  case False
  assume "subseq xs (drop (Suc i) ys)"
  with False show ?thesis by simp
qed

lemma subseq_nth_drop:
  "i < length ys \<Longrightarrow> subseq xs (drop (Suc i) ys) \<Longrightarrow> subseq (ys ! i # xs) (drop i ys)"
  using subseq_Cons2 [of xs "drop (Suc i) ys" "ys ! i"] by (simp add: Cons_nth_drop_Suc)

lemma unpackIndices_while_subseq:
  "unpackIndices_while sets remoteEntries locals localEntries p_in remote n_in localIndex index pos
     = Some (out, pos') \<Longrightarrow>
   \<exists>ext. out = remote @ ext \<and> subseq (map localIndexPair ext) (drop localIndex locals)"
proof (induction "(localEntries - localIndex) + nat (remoteEntries - int n_in)"
       arbitrary: remote n_in localIndex index pos rule: less_induct)
  case less
  note run = less.prems
  show ?case
  proof (cases "localIndex < localEntries")
    case False
    with run show ?thesis by (simp add: unpackIndices_while_done)
  next
    case True
    show ?thesis
    proof (cases "localIndex < length locals")
      case False
      with run True show ?thesis by (simp add: unpackIndices_while_unwritten)
    next
      case inl: True
      let ?l = "locals ! localIndex"
      show ?thesis
      proof (cases "global_m (deref sets ?l) = global_m index")
        case eq: True
        let ?ri = "RemoteIndex (attribute_m (local_m index)) ?l"
        show ?thesis
        proof (cases "int (Suc n_in) < remoteEntries")
          case more: True
          show ?thesis
          proof (cases "MPI_Unpack_pair p_in pos index")
            case None
            with run show ?thesis
              by (simp add: unpackIndices_while_match_fail [OF True inl eq more])
          next
            case (Some u)
            obtain index' pos1 where u: "u = (index', pos1)" by (cases u)
            have m: "(localEntries - Suc localIndex) + nat (remoteEntries - int (Suc n_in))
                     < (localEntries - localIndex) + nat (remoteEntries - int n_in)"
              using True more by simp
            have "unpackIndices_while sets remoteEntries locals localEntries p_in
                    (remote @ [?ri]) (Suc n_in) (Suc localIndex) index' pos1 = Some (out, pos')"
              using run unpackIndices_while_match_more [OF True inl eq more Some [unfolded u]]
              by simp
            from less.hyps [OF m this] obtain ext where
              "out = (remote @ [?ri]) @ ext"
              "subseq (map localIndexPair ext) (drop (Suc localIndex) locals)" by blast
            then have "out = remote @ (?ri # ext)"
              "subseq (map localIndexPair (?ri # ext)) (drop localIndex locals)"
              using subseq_nth_drop [OF inl] by simp_all
            then show ?thesis by blast
          qed
        next
          case last: False
          from run have "out = remote @ [?ri]"
            by (simp add: unpackIndices_while_match_last [OF True inl eq last])
          moreover have "subseq (map localIndexPair [?ri]) (drop localIndex locals)"
            using subseq_nth_drop [OF inl, of "[]"] by simp
          ultimately show ?thesis by blast
        qed
      next
        case neq: False
        show ?thesis
        proof (cases "global_m (deref sets ?l) <s global_m index")
          case lt: True
          have m: "(localEntries - Suc localIndex) + nat (remoteEntries - int n_in)
                   < (localEntries - localIndex) + nat (remoteEntries - int n_in)"
            using True by simp
          have "unpackIndices_while sets remoteEntries locals localEntries p_in
                  remote n_in (Suc localIndex) index pos = Some (out, pos')"
            using run unpackIndices_while_advance [OF True inl neq lt] by simp
          from less.hyps [OF m this] obtain ext where
            "out = remote @ ext" "subseq (map localIndexPair ext) (drop (Suc localIndex) locals)"
            by blast
          then show ?thesis using subseq_drop_Suc by blast
        next
          case nlt: False
          show ?thesis
          proof (cases "int (Suc n_in) < remoteEntries")
            case more: True
            show ?thesis
            proof (cases "MPI_Unpack_pair p_in pos index")
              case None
              with run show ?thesis
                by (simp add: unpackIndices_while_discard_fail [OF True inl neq nlt more])
            next
              case (Some u)
              obtain index' pos1 where u: "u = (index', pos1)" by (cases u)
              have m: "(localEntries - localIndex) + nat (remoteEntries - int (Suc n_in))
                       < (localEntries - localIndex) + nat (remoteEntries - int n_in)"
                using more by simp
              have "unpackIndices_while sets remoteEntries locals localEntries p_in
                      remote (Suc n_in) localIndex index' pos1 = Some (out, pos')"
                using run unpackIndices_while_discard_more [OF True inl neq nlt more Some [unfolded u]]
                by simp
              from less.hyps [OF m this] show ?thesis .
            qed
          next
            case last: False
            from run have "out = remote"
              by (simp add: unpackIndices_while_discard_last [OF True inl neq nlt last])
            then show ?thesis by simp
          qed
        qed
      qed
    qed
  qed
qed

lemma unpackIndices_subseq:
  assumes "unpackIndices sets [] remoteEntries locals localEntries p_in pos = Some (out, pos')"
  shows "subseq (map localIndexPair out) locals"
proof (cases "remoteEntries = 0")
  case True
  with assms show ?thesis by (simp add: unpackIndices_def)
next
  case False
  with assms obtain index pos1 where
    "unpackIndices_while sets remoteEntries locals localEntries p_in [] 0 0 index pos1 = Some (out, pos')"
    by (auto simp: unpackIndices_def split: option.splits)
  from unpackIndices_while_subseq [OF this] show ?thesis by simp
qed

lemma sorted_wrt_subseq:
  "subseq xs ys \<Longrightarrow> sorted_wrt P ys \<Longrightarrow> sorted_wrt P xs"
proof (induction rule: list_emb.induct)
  case (list_emb_Nil ys)
  then show ?case by simp
next
  case (list_emb_Cons xs ys y)
  then show ?case by simp
next
  case (list_emb_Cons2 x y xs ys)
  then have "\<forall>z\<in>set xs. P x z"
    using list_emb_set [of "(=)" xs ys] by (metis sorted_wrt.simps(2))
  with list_emb_Cons2 show ?case by simp
qed

lemma unpackIndices_ascending:
  assumes "unpackIndices sets [] remoteEntries locals localEntries p_in pos = Some (out, pos')"
    and "sorted_wrt (global_less sets) locals"
  shows "ascending_list sets out"
  unfolding ascending_list_def
  by (rule sorted_wrt_subseq [OF unpackIndices_subseq [OF assms(1)] assms(2)])

lemma packEntries_for_pointers:
  "packEntries_for ip a xs k prs buf pos = Some (prs', buf', pos') \<Longrightarrow>
   \<exists>ext. prs' = prs @ ext \<and> sorted_wrt (\<lambda>p q. pairIdx p < pairIdx q) ext \<and>
         (\<forall>p\<in>set ext. setAddr p = a \<and> k \<le> pairIdx p \<and> pairIdx p < k + length xs)"
proof (induction xs arbitrary: k prs buf pos)
  case Nil
  then show ?case by simp
next
  case (Cons x xs)
  show ?case
  proof (cases "ip \<or> isPublic (local_m x)")
    case True
    with Cons.prems obtain buf1 pos1 where
      "packEntries_for ip a xs (Suc k) (prs @ [PairPtr a k]) buf1 pos1 = Some (prs', buf', pos')"
      by (auto split: option.splits)
    from Cons.IH [OF this] obtain ext where e: "prs' = (prs @ [PairPtr a k]) @ ext"
      "sorted_wrt (\<lambda>p q. pairIdx p < pairIdx q) ext"
      "\<forall>p\<in>set ext. setAddr p = a \<and> Suc k \<le> pairIdx p \<and> pairIdx p < Suc k + length xs"
      by blast
    then have "prs' = prs @ (PairPtr a k # ext)"
      "sorted_wrt (\<lambda>p q. pairIdx p < pairIdx q) (PairPtr a k # ext)"
      "\<forall>p\<in>set (PairPtr a k # ext). setAddr p = a \<and> k \<le> pairIdx p \<and> pairIdx p < k + length (x # xs)"
      by auto
    then show ?thesis by blast
  next
    case False
    with Cons.prems have
      "packEntries_for ip a xs (Suc k) prs buf pos = Some (prs', buf', pos')" by simp
    from Cons.IH [OF this] obtain ext where e: "prs' = prs @ ext"
      "sorted_wrt (\<lambda>p q. pairIdx p < pairIdx q) ext"
      "\<forall>p\<in>set ext. setAddr p = a \<and> Suc k \<le> pairIdx p \<and> pairIdx p < Suc k + length xs"
      by blast
    then have "\<forall>p\<in>set ext. setAddr p = a \<and> k \<le> pairIdx p \<and> pairIdx p < k + length (x # xs)"
      by auto
    with e(1,2) show ?thesis by blast
  qed
qed

lemma packEntries_ascending:
  assumes "packEntries ip sets a buf pos = Some (prs, buf', pos')"
    and "strictly_ascending (sets a)"
  shows "sorted_wrt (global_less sets) prs"
proof -
  from assms(1) packEntries_for_pointers [of ip a "pairs (sets a)" 0 "[]" buf pos prs buf' pos']
  have s: "sorted_wrt (\<lambda>p q. pairIdx p < pairIdx q) prs"
    and r: "\<forall>p\<in>set prs. setAddr p = a \<and> pairIdx p < length (pairs (sets a))"
    by (auto simp: packEntries_def)
  show ?thesis
  proof (rule sorted_wrt_mono_rel [OF _ s])
    fix p q assume "p \<in> set prs" "q \<in> set prs" "pairIdx p < pairIdx q"
    with r assms(2) show "global_less sets p q"
      by (auto simp: global_less_def deref_def strictly_ascending_def sorted_wrt_iff_nth_less)
  qed
qed

lemma heap_at_append_old: "a < length h \<Longrightarrow> heap_at (h @ xs) a = heap_at h a"
  by (simp add: heap_at_def nth_append)

lemma heap_at_append_first: "heap_at (h @ x # xs) (length h) = x"
  by (simp add: heap_at_def)

lemma heap_at_append_second: "heap_at (h @ x # y # xs) (Suc (length h)) = y"
  by (simp add: heap_at_def nth_append)

lemma heap_at_Some_less: "heap_at h a = Some l \<Longrightarrow> a < length h"
  by (simp add: heap_at_def split: if_splits)

lemma heap_at_update: "heap_at (h[a := x]) b = (if b = a \<and> a < length h then x else heap_at h b)"
  by (simp add: heap_at_def)

lemma list_update_append_second: "(h @ [x, y])[Suc (length h) := z] = h @ [x, z]"
  by (simp add: list_update_append)

lemma hop_lists_cases:
  assumes "hop_lists proc f = Some (send, receive, f')"
  obtains
    (two) twoIndexSets pos1 rl sl where
      "MPI_Unpack_int (buffer f ! (proc mod 2)) 0 = Some (twoIndexSets, pos1)"
      "twoIndexSets \<noteq> 0 \<or> sendTwo f"
      "receive = length (listHeap f)" "send = Suc (length (listHeap f))"
      "listHeap f' = listHeap f @ [Some rl, Some sl]"
      "\<exists>n p p'. unpackIndices (indexSets f) [] n (destPairs f) (destPublish f)
                  (buffer f ! (proc mod 2)) p = Some (rl, p')"
      "\<exists>n p p'. unpackIndices (indexSets f) [] n (sourcePairs f) (sourcePublish f)
                  (buffer f ! (proc mod 2)) p = Some (sl, p')"
  | (one) pos1 rl where
      "MPI_Unpack_int (buffer f ! (proc mod 2)) 0 = Some (0, pos1)"
      "\<not> sendTwo f"
      "receive = length (listHeap f)" "send = receive"
      "listHeap f' = listHeap f @ [Some rl]"
      "\<exists>n p p'. unpackIndices (indexSets f) [] n (destPairs f) (destPublish f)
                  (buffer f ! (proc mod 2)) p = Some (rl, p')"
proof -
  let ?b = "buffer f ! (proc mod 2)"
  from assms obtain twoIndexSets pos1 noReceive pos2 noSend pos3 where
    h1: "MPI_Unpack_int ?b 0 = Some (twoIndexSets, pos1)" and
    h2: "MPI_Unpack_int ?b pos1 = Some (noReceive, pos2)" and
    h3: "MPI_Unpack_int ?b pos2 = Some (noSend, pos3)"
    by (auto simp: hop_lists_def split: option.splits)
  from assms h1 h2 h3 obtain rl pos4 where
    r: "unpackIndices (indexSets f) [] (sint noReceive) (destPairs f) (destPublish f) ?b pos3
          = Some (rl, pos4)"
    by (auto simp: hop_lists_def new_RemoteIndexList_def destPairs_def split: option.splits if_splits)
  show ?thesis
  proof (cases "twoIndexSets \<noteq> 0 \<or> sendTwo f")
    case True
    with assms h1 h2 h3 r obtain sl pos5 where
      s: "unpackIndices (indexSets f) [] (sint noSend) (sourcePairs f) (sourcePublish f) ?b pos4
            = Some (sl, pos5)"
      and res: "send = Suc (length (listHeap f))" "receive = length (listHeap f)"
        "listHeap f' = listHeap f @ [Some rl, Some sl]"
      by (auto simp: hop_lists_def new_RemoteIndexList_def destPairs_def list_update_append_second
               split: option.splits if_splits)
    show ?thesis
      by (rule two [OF h1 True res(2) res(1) res(3)]) (use r s in blast)+
  next
    case False
    with assms h1 h2 h3 r have res: "send = receive" "receive = length (listHeap f)"
      "listHeap f' = listHeap f @ [Some rl]"
      by (auto simp: hop_lists_def new_RemoteIndexList_def destPairs_def split: option.splits if_splits)
    from False h1 have h1': "MPI_Unpack_int ?b 0 = Some (0, pos1)" by simp
    show ?thesis
      by (rule one [OF h1' _ res(2) res(1) res(3)]) (use False r in blast)+
  qed
qed

lemma hop_store_result:
  assumes "heap_at (listHeap f) send = Some sl" and "heap_at (listHeap f) receive = Some rl"
  shows "hop_store remoteProc send receive f =
           (if sl = [] \<and> rl = []
            then Some (f\<lparr>listHeap := (listHeap f)[send := None, receive := None]\<rparr>)
            else Some (f\<lparr>this := (this f)\<lparr>remoteIndices_m :=
                         map_insert (remoteIndices_m (this f)) remoteProc (send, receive)\<rparr>\<rparr>))"
  using assms
  by (auto simp: hop_store_def delete_RemoteIndexList_def heap_at_update
           dest: heap_at_Some_less split: option.splits)

lemma hop_pack_arrays:
  assumes "hop_pack ip proc f = Some f'"
    and "sorted_wrt (global_less (indexSets f)) (sourcePairs f)"
    and "sorted_wrt (global_less (indexSets f)) (destPairs_new f)"
    and "strictly_ascending (indexSets f (source_m (this f)))"
    and "strictly_ascending (indexSets f (dest_m (this f)))"
  shows "sorted_wrt (global_less (indexSets f)) (sourcePairs f') \<and>
         sorted_wrt (global_less (indexSets f)) (destPairs_new f')"
proof (cases "proc = 1")
  case False
  with assms(1) have "f' = f" by (simp add: hop_pack_def)
  with assms(2,3) show ?thesis by simp
next
  case True
  with assms(1) obtain b3 pos3 sp b4 pos4 where
    s: "packEntries ip (indexSets f) (source_m (this f)) b3 pos3 = Some (sp, b4, pos4)"
    by (auto simp: hop_pack_def split: option.splits)
  note sp = packEntries_ascending [OF s assms(4)]
  show ?thesis
  proof (cases "sendTwo f")
    case two: True
    with True assms(1) s obtain b3' pos3' sp' b4' pos4' dp b5 pos5 where
      s': "packEntries ip (indexSets f) (source_m (this f)) b3' pos3' = Some (sp', b4', pos4')" and
      d: "packEntries ip (indexSets f) (dest_m (this f)) b4' pos4' = Some (dp, b5, pos5)" and
      f': "sourcePairs f' = sp'" "destPairs_new f' = dp"
      by (auto simp: hop_pack_def split: option.splits)
    from packEntries_ascending [OF s' assms(4)] packEntries_ascending [OF d assms(5)] f'
    show ?thesis by simp
  next
    case one: False
    with True assms(1) obtain b3' pos3' sp' b4' pos4' where
      s': "packEntries ip (indexSets f) (source_m (this f)) b3' pos3' = Some (sp', b4', pos4')" and
      f': "sourcePairs f' = sp'" "destPairs_new f' = destPairs_new f"
      by (auto simp: hop_pack_def split: option.splits)
    from packEntries_ascending [OF s' assms(4)] assms(3) f' show ?thesis by simp
  qed
qed

lemma hop_pack_ascending:
  assumes "hop_pack ip proc f = Some f'" and "frame_ascending f"
    and "strictly_ascending (indexSets f (source_m (this f)))"
    and "strictly_ascending (indexSets f (dest_m (this f)))"
  shows "frame_ascending f'"
proof -
  from assms(2) have a: "sorted_wrt (global_less (indexSets f)) (sourcePairs f)"
    "sorted_wrt (global_less (indexSets f)) (destPairs_new f)" "recorded_ascending f"
    by (simp_all add: frame_ascending_def)
  note same = hop_pack_same [OF assms(1)]
  from a(3) same have "recorded_ascending f'" by (simp add: recorded_ascending_def)
  with hop_pack_arrays [OF assms(1) a(1,2) assms(3,4)] same show ?thesis
    by (simp add: frame_ascending_def)
qed

lemma hop_in_ascending:
  assumes "hop_in r procs proc msg f = Some f'" and "frame_ascending f"
  shows "frame_ascending f'"
proof -
  from assms(1) obtain f1 send receive f2 where
    1: "hop_receive proc msg f = Some f1" and 2: "hop_lists proc f1 = Some (send, receive, f2)"
    and 3: "hop_store ((r + procs - proc) mod procs) send receive f2 = Some f'"
    by (auto simp: hop_in_def split: option.splits)
  let ?sets = "indexSets f"
  note r1 = hop_receive_same [OF 1]
  note l2 = hop_lists_same [OF 2]
  from assms(2) r1 have a: "sorted_wrt (global_less ?sets) (sourcePairs f1)"
    "sorted_wrt (global_less ?sets) (destPairs_new f1)" "recorded_ascending f1"
    by (simp_all add: frame_ascending_def recorded_ascending_def)
  then have dp: "sorted_wrt (global_less ?sets) (destPairs f1)" by (simp add: destPairs_def)
  have sets1: "indexSets f1 = ?sets" using r1 by simp
  obtain sl rl where
    heap2: "listHeap f2 = listHeap f1 @ [Some rl] \<or> listHeap f2 = listHeap f1 @ [Some rl, Some sl]"
    and hs: "heap_at (listHeap f2) send = Some sl" and hr: "heap_at (listHeap f2) receive = Some rl"
    and sl_asc: "ascending_list ?sets sl" and rl_asc: "ascending_list ?sets rl"
    and fresh: "length (listHeap f1) \<le> send" and recv: "receive = length (listHeap f1)"
    using 2
  proof (cases rule: hop_lists_cases)
    case (two twoIndexSets pos1 rl sl)
    from two(6) have "ascending_list ?sets rl"
      using unpackIndices_ascending dp sets1 by metis
    moreover from two(7) have "ascending_list ?sets sl"
      using unpackIndices_ascending a(1) sets1 by metis
    ultimately show ?thesis using two(3,4,5)
      by (intro that [of rl sl]) (simp_all add: heap_at_append_first heap_at_append_second)
  next
    case (one pos1 rl)
    from one(6) have "ascending_list ?sets rl"
      using unpackIndices_ascending dp sets1 by metis
    then show ?thesis using one(3,4,5)
      by (intro that [of rl rl]) (simp_all add: heap_at_append_first)
  qed
  have old: "heap_at (listHeap f2) a = heap_at (listHeap f1) a" if "a < length (listHeap f1)" for a
    using heap2 that by (auto simp: heap_at_append_old)
  have rec2: "recorded_ascending f2"
    unfolding recorded_ascending_def
  proof (intro allI impI)
    fix q s rc assume "remoteIndices_m (this f2) q = Some (s, rc)"
    with l2 a(3) obtain sl' rl' where
      h: "heap_at (listHeap f1) s = Some sl'" "heap_at (listHeap f1) rc = Some rl'"
      "ascending_list (indexSets f1) sl'" "ascending_list (indexSets f1) rl'"
      unfolding recorded_ascending_def by (metis (no_types, lifting))
    with old [of s] old [of rc] l2
    show "\<exists>sl rl. heap_at (listHeap f2) s = Some sl \<and> heap_at (listHeap f2) rc = Some rl \<and>
                 ascending_list (indexSets f2) sl \<and> ascending_list (indexSets f2) rl"
      by (auto dest: heap_at_Some_less)
  qed
  have sets2: "indexSets f2 = ?sets" using l2 sets1 by simp
  have arrays2: "sorted_wrt (global_less ?sets) (sourcePairs f2)"
    "sorted_wrt (global_less ?sets) (destPairs_new f2)"
    using a l2 by simp_all
  have rec': "recorded_ascending f'"
  proof (cases "sl = [] \<and> rl = []")
    case True
    with 3 hop_store_result [OF hs hr, of "(r + procs - proc) mod procs"]
    have f': "f' = f2\<lparr>listHeap := (listHeap f2)[send := None, receive := None]\<rparr>" by simp
    show ?thesis unfolding recorded_ascending_def
    proof (intro allI impI)
      fix q s rc assume "remoteIndices_m (this f') q = Some (s, rc)"
      with f' have "remoteIndices_m (this f1) q = Some (s, rc)" using l2 by simp
      with a(3) obtain sl' rl' where
        h: "heap_at (listHeap f1) s = Some sl'" "heap_at (listHeap f1) rc = Some rl'"
        "ascending_list (indexSets f1) sl'" "ascending_list (indexSets f1) rl'"
        unfolding recorded_ascending_def by (metis (no_types, lifting))
      from h(1,2) have lt: "s < length (listHeap f1)" "rc < length (listHeap f1)"
        by (auto dest: heap_at_Some_less)
      with fresh recv have ne: "s \<noteq> send" "s \<noteq> receive" "rc \<noteq> send" "rc \<noteq> receive" by auto
      from lt old h have "heap_at (listHeap f2) s = Some sl'" "heap_at (listHeap f2) rc = Some rl'"
        by simp_all
      with ne f' h(3,4) sets1 sets2
      show "\<exists>sl rl. heap_at (listHeap f') s = Some sl \<and> heap_at (listHeap f') rc = Some rl \<and>
                 ascending_list (indexSets f') sl \<and> ascending_list (indexSets f') rl"
        by (simp add: heap_at_update)
    qed
  next
    case False
    with 3 hop_store_result [OF hs hr, of "(r + procs - proc) mod procs"]
    have f': "f' = f2\<lparr>this := (this f2)\<lparr>remoteIndices_m :=
                         map_insert (remoteIndices_m (this f2)) ((r + procs - proc) mod procs)
                           (send, receive)\<rparr>\<rparr>" by simp
    show ?thesis unfolding recorded_ascending_def
    proof (intro allI impI)
      fix q s rc assume "remoteIndices_m (this f') q = Some (s, rc)"
      with f' have "remoteIndices_m (this f2) q = Some (s, rc) \<or> (s, rc) = (send, receive)"
        by (auto simp: map_insert_def split: option.splits if_splits)
      then show "\<exists>sl rl. heap_at (listHeap f') s = Some sl \<and> heap_at (listHeap f') rc = Some rl \<and>
                 ascending_list (indexSets f') sl \<and> ascending_list (indexSets f') rl"
      proof
        assume "remoteIndices_m (this f2) q = Some (s, rc)"
        with rec2 f' show ?thesis unfolding recorded_ascending_def by auto
      next
        assume "(s, rc) = (send, receive)"
        with hs hr sl_asc rl_asc f' sets2 show ?thesis by auto
      qed
    qed
  qed
  have "indexSets f' = ?sets \<and> sourcePairs f' = sourcePairs f2 \<and> destPairs_new f' = destPairs_new f2"
    using 3 hop_store_result [OF hs hr, of "(r + procs - proc) mod procs"] sets2
    by (auto split: if_splits)
  with arrays2 rec' show ?thesis by (simp add: frame_ascending_def)
qed

lemma untouched_fields:
  assumes "untouched f = untouched p"
  shows "indexSets f = indexSets p" "source_m (this f) = source_m (this p)"
    "dest_m (this f) = dest_m (this p)"
  using assms by (simp_all add: untouched_def)

lemma frame_ascending_enter:
  "frame_ascending (buildRemote_enter ip m (buildRemote_clear p))"
  by (simp add: frame_ascending_def recorded_ascending_def buildRemote_enter_def
      buildRemote_clear_def Let_def)

text \<open>
  Claim C6. After a completed \<^verbatim>\<open>rebuild\<close>, on a rank whose source and destination index
  sets are strictly ascending in the global index, the two lists recorded for any peer
  are allocated and the pairs their successive entries refer to have strictly
  increasing global indices. This holds whatever the received messages contain: every
  match advances the index into the local pointer array.
\<close>

theorem lists_ascending_after_rebuild:
  assumes "rebuild ignorePublic w = Some w'" and "r < length w"
    and "strictly_ascending (indexSets (w ! r) (source_m (this (w ! r))))"
    and "strictly_ascending (indexSets (w ! r) (dest_m (this (w ! r))))"
    and "remoteIndices_m (this (w' ! r)) q = Some (send, receive)"
  shows "\<exists>sl rl. heap_at (listHeap (w' ! r)) send = Some sl \<and>
                 heap_at (listHeap (w' ! r)) receive = Some rl \<and>
                 ascending_list (indexSets (w ! r)) sl \<and> ascending_list (indexSets (w ! r)) rl"
proof (cases "length w = 1")
  case True
  with assms(1) have "w' = map buildRemote_clear w"
    by (simp add: rebuild_def buildRemote_def)
  with assms(2,5) show ?thesis by (simp add: buildRemote_clear_def)
next
  case False
  let ?fs = "map (buildRemote_enter ignorePublic
                   (MPI_Allreduce_MAX (map (buildRemote_publish ignorePublic) w)))
               (map buildRemote_clear w)"
  let ?I = "\<lambda>r' f. r' = r \<longrightarrow> frame_ascending f \<and> untouched f = untouched (w ! r)"
  from False assms(1) obtain fs where ring: "ring ignorePublic (length w) 1 ?fs = Some fs"
    and w': "w' = map buildRemote_leave fs"
    by (auto simp: rebuild_def buildRemote_def split: option.splits)
  have "length fs = length w \<and> (\<forall>r'<length w. ?I r' (fs ! r'))"
  proof (rule ring_invariant [OF ring, where I = ?I])
    show "length w = length ?fs" by simp
  next
    fix r' assume "r' < length w"
    then show "?I r' (?fs ! r')" by (simp add: untouched_enter frame_ascending_enter)
  next
    fix r' pr f f1 msg f'
    assume I: "?I r' f" and p: "hop_pack ignorePublic pr f = Some f1"
      and h: "hop_in r' (length w) pr msg f1 = Some f'"
    show "?I r' f'"
    proof
      assume "r' = r"
      with I have fa: "frame_ascending f" and u: "untouched f = untouched (w ! r)" by simp_all
      from assms(3,4) untouched_fields [OF u]
      have "strictly_ascending (indexSets f (source_m (this f)))"
        "strictly_ascending (indexSets f (dest_m (this f)))" by simp_all
      from hop_pack_ascending [OF p fa this] have "frame_ascending f1" .
      from hop_in_ascending [OF h this] hop_step_untouched [OF p h] u
      show "frame_ascending f' \<and> untouched f' = untouched (w ! r)" by simp
    qed
  qed
  with assms(2) have len: "length fs = length w" and fa: "frame_ascending (fs ! r)"
    and u: "untouched (fs ! r) = untouched (w ! r)" by simp_all
  from assms(5) w' len assms(2)
  have "remoteIndices_m (this (fs ! r)) q = Some (send, receive)"
    by (simp add: buildRemote_leave_def)
  with fa obtain sl rl where "heap_at (listHeap (fs ! r)) send = Some sl"
    "heap_at (listHeap (fs ! r)) receive = Some rl"
    "ascending_list (indexSets (fs ! r)) sl" "ascending_list (indexSets (fs ! r)) rl"
    unfolding frame_ascending_def recorded_ascending_def by blast
  with w' len assms(2) untouched_fields(1) [OF u] show ?thesis
    by (simp add: buildRemote_leave_def)
qed

text \<open>Claim C6: rank 0 of \<open>overlap_ranks\<close>, whose two lists for rank 1 have two entries each.\<close>

theorem lists_ascending_after_rebuild_witness:
  "rebuild False overlap_ranks \<noteq> None \<and> (0::nat) < length overlap_ranks \<and>
   strictly_ascending (indexSets (overlap_ranks ! 0) (source_m (this (overlap_ranks ! 0)))) \<and>
   strictly_ascending (indexSets (overlap_ranks ! 0) (dest_m (this (overlap_ranks ! 0)))) \<and>
   remoteIndices_m (this (the (rebuild False overlap_ranks) ! 0)) 1 = Some (1, 0) \<and>
   heap_at (listHeap (the (rebuild False overlap_ranks) ! 0)) 1 =
     Some [RemoteIndex border (PairPtr 0 1), RemoteIndex border (PairPtr 0 2)] \<and>
   heap_at (listHeap (the (rebuild False overlap_ranks) ! 0)) 0 =
     Some [RemoteIndex border (PairPtr 1 1), RemoteIndex border (PairPtr 1 2)] \<and>
   (\<exists>sl rl. heap_at (listHeap (the (rebuild False overlap_ranks) ! 0)) 1 = Some sl \<and>
            heap_at (listHeap (the (rebuild False overlap_ranks) ! 0)) 0 = Some rl \<and>
            ascending_list (indexSets (overlap_ranks ! 0)) sl \<and>
            ascending_list (indexSets (overlap_ranks ! 0)) rl)"
proof -
  have 1: "rebuild False overlap_ranks \<noteq> None" by code_simp
  then have 2: "rebuild False overlap_ranks = Some (the (rebuild False overlap_ranks))" by simp
  have 3: "(0::nat) < length overlap_ranks" by code_simp
  have 4: "strictly_ascending (indexSets (overlap_ranks ! 0) (source_m (this (overlap_ranks ! 0))))"
    by code_simp
  have 5: "strictly_ascending (indexSets (overlap_ranks ! 0) (dest_m (this (overlap_ranks ! 0))))"
    by code_simp
  have 6: "remoteIndices_m (this (the (rebuild False overlap_ranks) ! 0)) 1 = Some (1, 0)"
    by code_simp
  have 7: "heap_at (listHeap (the (rebuild False overlap_ranks) ! 0)) 1 =
     Some [RemoteIndex border (PairPtr 0 1), RemoteIndex border (PairPtr 0 2)]" by code_simp
  have 8: "heap_at (listHeap (the (rebuild False overlap_ranks) ! 0)) 0 =
     Some [RemoteIndex border (PairPtr 1 1), RemoteIndex border (PairPtr 1 2)]" by code_simp
  from lists_ascending_after_rebuild [OF 2 3 4 5 6] 1 3 4 5 6 7 8 show ?thesis by blast
qed


section \<open>Storing or freeing the lists of a peer\<close>

lemma remoteProc_fresh:
  assumes "rank < procs" and "1 \<le> proc" and "proc < procs"
  shows "(rank + procs - proc) mod procs \<notin> earlier_peers rank procs proc"
proof
  assume "(rank + procs - proc) mod procs \<in> earlier_peers rank procs proc"
  then obtain k where k: "1 \<le> k" "k < proc"
    and eq: "(rank + procs - proc) mod procs = (rank + procs - k) mod procs"
    by (auto simp: earlier_peers_def)
  have le: "rank + procs - proc \<le> rank + procs - k" using k by simp
  from eq have "(rank + procs - k) mod procs = (rank + procs - proc) mod procs" by simp
  with le have "procs dvd (rank + procs - k) - (rank + procs - proc)"
    by (simp add: mod_eq_dvd_iff_nat)
  moreover have "(rank + procs - k) - (rank + procs - proc) = proc - k"
    using k assms by simp
  ultimately have "procs dvd proc - k" by simp
  moreover have "0 < proc - k" "proc - k < procs" using k assms by simp_all
  ultimately show False using dvd_imp_le by fastforce
qed

lemma earlier_peers_Suc:
  "1 \<le> proc \<Longrightarrow>
   earlier_peers rank procs (Suc proc) =
     insert ((rank + procs - proc) mod procs) (earlier_peers rank procs proc)"
  by (auto simp: earlier_peers_def less_Suc_eq)

text \<open>
  The loop is entered with no entry at all, and packing does not touch the entries; the
  theorem below carries the bound on the entries from one pass to the next.
\<close>

lemma peers_enter:
  "dom (remoteIndices_m (this (buildRemote_enter ip m (buildRemote_clear p))))
     \<subseteq> earlier_peers rank procs 1"
  by (simp add: buildRemote_enter_def buildRemote_clear_def Let_def)

lemma peers_hop_pack:
  "hop_pack ip proc f = Some f1 \<Longrightarrow> remoteIndices_m (this f1) = remoteIndices_m (this f)"
  by (simp add: hop_pack_same)

text \<open>
  Claim C8. In the pass \<open>proc\<close> of the loop, entered with entries for earlier peers only,
  once the two lists for \<^verbatim>\<open>remoteProc = (rank+procs-proc)%procs\<close> are built the pass
  completes. If both lists are empty, both are deleted (one deletion when the two
  pointers are the same) and \<^verbatim>\<open>remoteIndices_\<close> is unchanged, with no entry for the peer;
  otherwise \<^verbatim>\<open>(send, receive)\<close> is stored under the rank of the peer and no list is
  deleted. Either way the entries are again for peers met so far.
\<close>

theorem hop_stores_or_frees:
  assumes "hop_receive proc msg f = Some f1" and "hop_lists proc f1 = Some (send, receive, f2)"
    and "dom (remoteIndices_m (this f)) \<subseteq> earlier_peers rank procs proc"
    and "rank < procs" and "1 \<le> proc" and "proc < procs"
  shows "\<exists>sl rl f'.
           heap_at (listHeap f2) send = Some sl \<and> heap_at (listHeap f2) receive = Some rl \<and>
           hop_in rank procs proc msg f = Some f' \<and>
           (if sl = [] \<and> rl = []
            then remoteIndices_m (this f') = remoteIndices_m (this f) \<and>
                 remoteIndices_m (this f') ((rank + procs - proc) mod procs) = None \<and>
                 listHeap f' = (listHeap f2)[send := None, receive := None] \<and>
                 heap_at (listHeap f') send = None \<and> heap_at (listHeap f') receive = None
            else remoteIndices_m (this f') =
                   (remoteIndices_m (this f))((rank + procs - proc) mod procs \<mapsto> (send, receive)) \<and>
                 listHeap f' = listHeap f2) \<and>
           dom (remoteIndices_m (this f')) \<subseteq> earlier_peers rank procs (Suc proc)"
proof -
  let ?q = "(rank + procs - proc) mod procs"
  have this2: "this f2 = this f"
    using hop_receive_same [OF assms(1)] hop_lists_same [OF assms(2)] by simp
  from remoteProc_fresh [OF assms(4,5,6)] assms(3)
  have fresh: "remoteIndices_m (this f) ?q = None" by blast
  obtain sl rl where hs: "heap_at (listHeap f2) send = Some sl"
    and hr: "heap_at (listHeap f2) receive = Some rl"
    using assms(2)
  proof (cases rule: hop_lists_cases)
    case (two twoIndexSets pos1 rl sl)
    then show ?thesis
      by (intro that [of sl rl]) (simp_all add: heap_at_append_first heap_at_append_second)
  next
    case (one pos1 rl)
    then show ?thesis
      by (intro that [of rl rl]) (simp_all add: heap_at_append_first)
  qed
  note store = hop_store_result [OF hs hr, of ?q]
  have in_heap: "send < length (listHeap f2)" "receive < length (listHeap f2)"
    using hs hr by (auto dest: heap_at_Some_less)
  show ?thesis
  proof (cases "sl = [] \<and> rl = []")
    case True
    let ?f' = "f2\<lparr>listHeap := (listHeap f2)[send := None, receive := None]\<rparr>"
    from True store assms(1,2) have run: "hop_in rank procs proc msg f = Some ?f'"
      by (simp add: hop_in_def)
    have "dom (remoteIndices_m (this ?f')) \<subseteq> earlier_peers rank procs (Suc proc)"
      using assms(3,5) this2 by (auto simp: earlier_peers_Suc)
    moreover have "heap_at (listHeap ?f') send = None" "heap_at (listHeap ?f') receive = None"
      using in_heap by (simp_all add: heap_at_update)
    ultimately show ?thesis using True hs hr run this2 fresh by simp
  next
    case False
    let ?f' = "f2\<lparr>this := (this f2)\<lparr>remoteIndices_m :=
                  map_insert (remoteIndices_m (this f2)) ?q (send, receive)\<rparr>\<rparr>"
    from False store assms(1,2) have run: "hop_in rank procs proc msg f = Some ?f'"
      by (auto simp: hop_in_def)
    have m: "remoteIndices_m (this ?f') = (remoteIndices_m (this f))(?q \<mapsto> (send, receive))"
      using fresh this2 by (simp add: map_insert_def)
    then have "dom (remoteIndices_m (this ?f')) \<subseteq> earlier_peers rank procs (Suc proc)"
      using assms(3,5) by (auto simp: earlier_peers_Suc)
    with False hs hr run m show ?thesis by auto
  qed
qed

text \<open>Claim C8: the first pass of rank 0 of \<open>mixed_ranks\<close>, which stores an entry for rank 1.\<close>

theorem hop_stores_or_frees_witness:
  "hop_receive 1 (first_pass_message mixed_ranks 0) (first_pass_packed mixed_ranks 0) \<noteq> None \<and>
   hop_lists 1 (first_pass_received mixed_ranks 0) \<noteq> None \<and>
   dom (remoteIndices_m (this (first_pass_packed mixed_ranks 0))) \<subseteq> earlier_peers 0 2 1 \<and>
   (0::nat) < 2 \<and> (1::nat) \<le> 1 \<and> (1::nat) < 2 \<and>
   (\<exists>f'. hop_in 0 2 1 (first_pass_message mixed_ranks 0) (first_pass_packed mixed_ranks 0) = Some f' \<and>
         remoteIndices_m (this f') =
           (remoteIndices_m (this (first_pass_packed mixed_ranks 0)))(1 \<mapsto> (1, 0)))"
proof -
  let ?f = "first_pass_packed mixed_ranks 0"
  let ?msg = "first_pass_message mixed_ranks 0"
  let ?f1 = "first_pass_received mixed_ranks 0"
  have 1: "hop_receive 1 ?msg ?f \<noteq> None" by code_simp
  then have rcv: "hop_receive 1 ?msg ?f = Some ?f1"
    by (auto simp: first_pass_received_def)
  have 2: "hop_lists 1 ?f1 \<noteq> None" by code_simp
  have s: "fst (the (hop_lists 1 ?f1)) = 1" by code_simp
  have r: "fst (snd (the (hop_lists 1 ?f1))) = 0" by code_simp
  have l: "map (heap_at (listHeap (snd (snd (the (hop_lists 1 ?f1)))))) [1, 0] =
           [Some [RemoteIndex owner (PairPtr 0 0)], Some []]" by code_simp
  from 2 s r have lst: "hop_lists 1 ?f1 = Some (1, 0, snd (snd (the (hop_lists 1 ?f1))))"
    by (cases "hop_lists 1 ?f1") auto
  have e: "remoteIndices_m (this ?f) 0 = None \<and> remoteIndices_m (this ?f) 1 = None" by code_simp
  have "remoteIndices_m (this ?f) = Map.empty"
  proof -
    let ?entered = "buildRemote_enter False (MPI_Allreduce_MAX (map (buildRemote_publish False) mixed_ranks))
                (buildRemote_clear (mixed_ranks ! 0))"
    have "this ?f = this ?entered"
      by (cases "hop_pack False 1 ?entered")
         (simp_all add: first_pass_packed_def hop_pack_same)
    moreover have "remoteIndices_m (this ?entered) = Map.empty"
      by (simp add: buildRemote_enter_def buildRemote_clear_def Let_def)
    ultimately show ?thesis by (simp only:)
  qed
  then have 3: "dom (remoteIndices_m (this ?f)) \<subseteq> earlier_peers 0 2 1" by simp
  from hop_stores_or_frees [OF rcv lst 3] l 1 2 3 show ?thesis by auto
qed


section \<open>One list or two\<close>



subsection \<open>The header of a message\<close>

























subsection \<open>All ranks, pass by pass\<close>














section \<open>NaN and the infinity norm\<close>














end
